theory Spec2Isabelle
  imports Complex_Main "HOL-Library.Word"
begin

section \<open>Haplotype generator: policies and the Builder\<close>

text \<open>
  \<^verbatim>\<open>HaplotypeGenerator::Policies\<close> holds the lagging policy, the three haplotype limits and
  the maximum holdout depth, all \<^verbatim>\<open>unsigned\<close>. The Builder keeps a \<^verbatim>\<open>Policies\<close> value and
  the minimum flank pad; each setter mutates one field and returns the Builder.
\<close>

type_synonym unsigned = "32 word"

datatype Lagging = none | conservative | aggressive

record HaplotypeLimits =
  target :: unsigned
  holdout :: unsigned
  overflow :: unsigned

record Policies =
  lagging :: Lagging
  haplotype_limits :: HaplotypeLimits
  max_holdout_depth :: unsigned

record Builder =
  policies :: Policies
  min_flank_pad :: unsigned

definition set_lagging_policy :: "Lagging \<Rightarrow> Builder \<Rightarrow> Builder" where
  "set_lagging_policy policy b = b\<lparr>policies := (policies b)\<lparr>lagging := policy\<rparr>\<rparr>"

definition set_target_limit :: "unsigned \<Rightarrow> Builder \<Rightarrow> Builder" where
  "set_target_limit n b =
     (let p1 = (policies b)\<lparr>haplotype_limits := (haplotype_limits (policies b))\<lparr>target := n\<rparr>\<rparr>
      in if holdout (haplotype_limits p1) \<ge> holdout (haplotype_limits p1)
         then b\<lparr>policies := p1\<lparr>haplotype_limits :=
                  (haplotype_limits p1)\<lparr>holdout := n + 1, overflow := n + 1\<rparr>\<rparr>\<rparr>
         else b\<lparr>policies := p1\<rparr>)"

definition set_holdout_limit :: "unsigned \<Rightarrow> Builder \<Rightarrow> Builder" where
  "set_holdout_limit n b =
     b\<lparr>policies := (policies b)\<lparr>haplotype_limits := (haplotype_limits (policies b))\<lparr>holdout := n\<rparr>\<rparr>\<rparr>"

definition set_overflow_limit :: "unsigned \<Rightarrow> Builder \<Rightarrow> Builder" where
  "set_overflow_limit n b =
     b\<lparr>policies := (policies b)\<lparr>haplotype_limits := (haplotype_limits (policies b))\<lparr>overflow := n\<rparr>\<rparr>\<rparr>"


definition set_min_flank_pad :: "unsigned \<Rightarrow> Builder \<Rightarrow> Builder" where
  "set_min_flank_pad n b = b\<lparr>min_flank_pad := n\<rparr>"

definition example_builder :: Builder where
  "example_builder =
     \<lparr>policies = \<lparr>lagging = none,
                   haplotype_limits = \<lparr>target = 128, holdout = 2048, overflow = 8192\<rparr>,
                   max_holdout_depth = 3\<rparr>,
      min_flank_pad = 30\<rparr>"

section \<open>Haplotype generator: one step of generate\<close>

record GenomicRegion =
  contig_name :: string
  region_begin :: nat
  region_end :: nat

record Allele =
  mapped_region :: GenomicRegion
  sequence :: string

record HoldoutSet =
  holdout_alleles :: "Allele list"
  holdout_set_region :: GenomicRegion

datatype HaplotypeOverflow = HaplotypeOverflow (overflow_region: GenomicRegion) (overflow_size: unsigned)

record ('t, 'h) TreeOps =
  num_haplotypes :: "'t \<Rightarrow> unsigned"
  tree_is_empty :: "'t \<Rightarrow> bool"
  tree_encompassing_region :: "'t \<Rightarrow> GenomicRegion"
  tree_clear :: "'t \<Rightarrow> 't"
  tree_clear_region :: "GenomicRegion \<Rightarrow> 't \<Rightarrow> 't"
  extract_haplotypes :: "GenomicRegion \<Rightarrow> 't \<Rightarrow> 'h list"
  extend_tree_until :: "Allele list \<Rightarrow> 't \<Rightarrow> unsigned \<Rightarrow> nat \<times> 't"
  extend_tree :: "Allele list \<Rightarrow> 't \<Rightarrow> 't"
  splice_tree :: "Allele list \<Rightarrow> 't \<Rightarrow> 't"

record RegionOps =
  is_after :: "GenomicRegion \<Rightarrow> GenomicRegion \<Rightarrow> bool"
  begins_before :: "GenomicRegion \<Rightarrow> GenomicRegion \<Rightarrow> bool"
  ends_before :: "GenomicRegion \<Rightarrow> GenomicRegion \<Rightarrow> bool"
  overlaps :: "GenomicRegion \<Rightarrow> GenomicRegion \<Rightarrow> bool"
  contains_region :: "GenomicRegion \<Rightarrow> GenomicRegion \<Rightarrow> bool"
  is_empty_region :: "GenomicRegion \<Rightarrow> bool"
  is_position :: "GenomicRegion \<Rightarrow> bool"
  left_overhang_region :: "GenomicRegion \<Rightarrow> GenomicRegion \<Rightarrow> GenomicRegion"
  right_overhang_region :: "GenomicRegion \<Rightarrow> GenomicRegion \<Rightarrow> GenomicRegion"
  overlapped_region :: "GenomicRegion \<Rightarrow> GenomicRegion \<Rightarrow> GenomicRegion"
  encompassing_region :: "GenomicRegion \<Rightarrow> GenomicRegion \<Rightarrow> GenomicRegion"
  head_region :: "GenomicRegion \<Rightarrow> GenomicRegion"
  tail_region :: "GenomicRegion \<Rightarrow> GenomicRegion"
  shift :: "GenomicRegion \<Rightarrow> int \<Rightarrow> GenomicRegion"
  expand_rhs :: "GenomicRegion \<Rightarrow> int \<Rightarrow> GenomicRegion"
  expand :: "GenomicRegion \<Rightarrow> int \<Rightarrow> int \<Rightarrow> GenomicRegion"

record AlleleOps =
  overlap_range :: "Allele list \<Rightarrow> GenomicRegion \<Rightarrow> Allele list"
  contained_range :: "Allele list \<Rightarrow> GenomicRegion \<Rightarrow> Allele list"
  contained_bases :: "Allele list \<Rightarrow> GenomicRegion \<Rightarrow> nat \<times> nat"
  copy_contained :: "Allele list \<Rightarrow> GenomicRegion \<Rightarrow> Allele list"
  count_overlapped :: "Allele list \<Rightarrow> GenomicRegion \<Rightarrow> nat"
  has_overlapped :: "Allele list \<Rightarrow> GenomicRegion \<Rightarrow> bool"
  rightmost_region :: "Allele list \<Rightarrow> GenomicRegion"
  encompassing_region_of :: "Allele list \<Rightarrow> GenomicRegion"
  extract_regions :: "Allele list \<Rightarrow> GenomicRegion list"
  extract_mutually_exclusive_regions :: "Allele list \<Rightarrow> GenomicRegion list"
  erase_overlapped :: "GenomicRegion \<Rightarrow> Allele list \<Rightarrow> Allele list"
  erase_all :: "Allele list \<Rightarrow> Allele list \<Rightarrow> Allele list"
  insert_all :: "Allele list \<Rightarrow> Allele list \<Rightarrow> Allele list"
  sort_alleles :: "Allele list \<Rightarrow> Allele list"
  is_insertion :: "Allele \<Rightarrow> bool"
  is_deletion :: "Allele \<Rightarrow> bool"

record ('r, 'w) ReadOps =
  walk :: "'w \<Rightarrow> GenomicRegion \<Rightarrow> 'r \<Rightarrow> Allele list \<Rightarrow> GenomicRegion"
  has_overlapped_reads :: "'r \<Rightarrow> GenomicRegion \<Rightarrow> bool"
  leftmost_overlapped :: "'r \<Rightarrow> GenomicRegion \<Rightarrow> GenomicRegion"
  rightmost_overlapped :: "'r \<Rightarrow> GenomicRegion \<Rightarrow> GenomicRegion"

text \<open>
  \<^verbatim>\<open>std::sort\<close> with a comparison of the counts only leaves the order of regions with
  equal counts open. \<open>sort_by_count\<close> stands for the order that the library produces; the
  theorems hold for every function in its place.
\<close>

record ('t, 'h, 'r, 'w) Collaborators =
  tree_ops :: "('t, 'h) TreeOps"
  region_ops :: RegionOps
  allele_ops :: AlleleOps
  read_ops :: "('r, 'w) ReadOps"
  sort_by_count :: "(GenomicRegion \<times> nat) list \<Rightarrow> (GenomicRegion \<times> nat) list"

record ('t, 'r, 'w) HaplotypeGenerator =
  g_policies :: Policies
  g_min_flank_pad :: nat
  g_tree :: 't
  g_default_walker :: 'w
  g_holdout_walker :: 'w
  g_lagged_walker :: "'w option"
  g_alleles :: "Allele list"
  g_reads :: 'r
  g_active_region :: GenomicRegion
  g_next_active_region :: "GenomicRegion option"
  g_active_holdouts :: "HoldoutSet list"
  g_holdout_region :: "GenomicRegion option"
  g_rightmost_allele :: Allele

definition in_holdout_mode :: "('t, 'r, 'w) HaplotypeGenerator \<Rightarrow> bool" where
  "in_holdout_mode g = (g_active_holdouts g \<noteq> [])"

definition is_lagging_enabled :: "('t, 'r, 'w) HaplotypeGenerator \<Rightarrow> bool" where
  "is_lagging_enabled g = (g_lagged_walker g \<noteq> None)"

definition can_extract_holdouts :: "('t, 'r, 'w) HaplotypeGenerator \<Rightarrow> GenomicRegion \<Rightarrow> bool" where
  "can_extract_holdouts g region =
     (length (g_active_holdouts g) < unat (max_holdout_depth (g_policies g)))"

definition reset_next_active_region ::
  "('t, 'r, 'w) HaplotypeGenerator \<Rightarrow> ('t, 'r, 'w) HaplotypeGenerator" where
  "reset_next_active_region g = g\<lparr>g_next_active_region := None\<rparr>"

definition can_remove_entire_passed_region ::
  "('t, 'h, 'r, 'w) Collaborators \<Rightarrow> GenomicRegion \<Rightarrow> GenomicRegion \<Rightarrow> Allele list \<Rightarrow> bool" where
  "can_remove_entire_passed_region C current_active_region next_active_region passed_alleles =
     (passed_alleles = []
      \<or> \<not> overlaps (region_ops C) (rightmost_region (allele_ops C) passed_alleles)
            next_active_region)"

definition requires_staged_removal ::
  "('t, 'h, 'r, 'w) Collaborators \<Rightarrow> Allele list \<Rightarrow> bool" where
  "requires_staged_removal C passed_alleles =
     (if passed_alleles = []
         \<or> \<not> is_empty_region (region_ops C) (mapped_region (last passed_alleles))
      then False
      else case dropWhile (\<lambda>allele. mapped_region allele = mapped_region (last passed_alleles))
                  (tl (rev passed_alleles)) of
             [] \<Rightarrow> False
           | allele # _ \<Rightarrow> is_position (region_ops C) (mapped_region allele))"

text \<open>
  The removal of the passed region, as \<^verbatim>\<open>update_lagged_next_active_region\<close> applies it to
  its test tree and \<^verbatim>\<open>progress\<close> to the tree and the alleles.
\<close>

definition clear_passed ::
  "('t, 'h, 'r, 'w) Collaborators \<Rightarrow> GenomicRegion \<Rightarrow> GenomicRegion \<Rightarrow> Allele list
   \<Rightarrow> GenomicRegion \<Rightarrow> GenomicRegion list" where
  "clear_passed C current_active_region next_active_region passed_alleles passed_region =
     (if can_remove_entire_passed_region C current_active_region next_active_region passed_alleles
      then [passed_region]
      else if requires_staged_removal C passed_alleles
      then [expand_rhs (region_ops C) passed_region (- 1),
            tail_region (region_ops C) (expand_rhs (region_ops C) passed_region (- 1))]
      else [expand_rhs (region_ops C) passed_region (- 1)])"

fun clear_indicators ::
  "('t, 'h, 'r, 'w) Collaborators \<Rightarrow> unsigned \<Rightarrow> GenomicRegion list \<Rightarrow> 't \<Rightarrow> 't" where
  "clear_indicators C target_limit [] test_tree = test_tree"
| "clear_indicators C target_limit (region # regions) test_tree =
     (if num_haplotypes (tree_ops C) test_tree < target_limit then test_tree
      else clear_indicators C target_limit regions (tree_clear_region (tree_ops C) region test_tree))"

fun add_novel_regions ::
  "('t, 'h, 'r, 'w) Collaborators \<Rightarrow> HaplotypeLimits \<Rightarrow> Allele list \<Rightarrow> GenomicRegion list
   \<Rightarrow> GenomicRegion list \<Rightarrow> nat \<Rightarrow> 't \<Rightarrow> 't" where
  "add_novel_regions C limits novel_alleles all_regions [] num_novel_regions_added test_tree =
     test_tree"
| "add_novel_regions C limits novel_alleles all_regions (region # regions)
       num_novel_regions_added test_tree =
     (let interacting_alleles = contained_range (allele_ops C) novel_alleles region;
          r = extend_tree_until (tree_ops C) interacting_alleles test_tree (overflow limits)
      in if fst r < length interacting_alleles then tree_clear (tree_ops C) (snd r)
         else if num_haplotypes (tree_ops C) (snd r) > target limits
         then (if num_novel_regions_added + 1 > 1
               then let t2 = tree_clear_region (tree_ops C) region (snd r);
                        prev_novel_region = all_regions ! (num_novel_regions_added - 1)
                    in if is_empty_region (region_ops C) prev_novel_region
                       then extend_tree (tree_ops C)
                              (contained_range (allele_ops C) novel_alleles prev_novel_region) t2
                       else t2
               else snd r)
         else if num_haplotypes (tree_ops C) (snd r) = target limits then snd r
         else add_novel_regions C limits novel_alleles all_regions regions
                (num_novel_regions_added + 1) (snd r))"

text \<open>
  \<^verbatim>\<open>update_lagged_next_active_region\<close>. \<open>None\<close> stands for undefined behaviour of the
  source: a dereferenced empty \<^verbatim>\<open>lagged_walker_\<close>, or \<^verbatim>\<open>back()\<close>/\<^verbatim>\<open>front()\<close> of an empty
  vector of regions.
\<close>

definition update_lagged_next_active_region ::
  "('t, 'h, 'r, 'w) Collaborators \<Rightarrow> ('t, 'r, 'w) HaplotypeGenerator
   \<Rightarrow> ('t, 'r, 'w) HaplotypeGenerator option" where
  "update_lagged_next_active_region C g =
     (let R = region_ops C; A = allele_ops C; T = tree_ops C;
          active = g_active_region g; limits = haplotype_limits (g_policies g)
      in if contains_region R active (mapped_region (g_rightmost_allele g))
         then Some (g\<lparr>g_next_active_region :=
                 Some (shift R (tail_region R (mapped_region (g_rightmost_allele g))) 2)\<rparr>)
         else case (if \<not> in_holdout_mode g then g_lagged_walker g
                    else Some (g_holdout_walker g)) of
           None \<Rightarrow> None
         | Some walker \<Rightarrow>
           let max_lagged_region = walk (read_ops C) walker active (g_reads g) (g_alleles g)
           in if \<not> overlaps R active max_lagged_region
              then Some (g\<lparr>g_next_active_region := Some max_lagged_region\<rparr>)
              else
                let novel_region = right_overhang_region R max_lagged_region active;
                    novel_alleles = overlap_range A (g_alleles g) novel_region;
                    first_try = extend_tree_until T novel_alleles (g_tree g) (target limits)
                in if begins_before R active max_lagged_region
                      \<and> \<not> fst first_try < length novel_alleles
                   then Some (g\<lparr>g_next_active_region :=
                           Some (tree_encompassing_region T (snd first_try))\<rparr>)
                   else
                     let passed_region = left_overhang_region R active max_lagged_region;
                         passed_alleles = overlap_range A (g_alleles g) passed_region;
                         test_tree0 =
                           (if begins_before R active max_lagged_region
                            then fold (tree_clear_region T)
                                   (clear_passed C active max_lagged_region passed_alleles
                                      passed_region)
                                   (tree_clear_region T novel_region (snd first_try))
                            else g_tree g);
                         novel_regions = extract_mutually_exclusive_regions A novel_alleles;
                         indicator_region = overlapped_region R active max_lagged_region;
                         indicator_alleles = overlap_range A (g_alleles g) indicator_region;
                         indicator_regions = extract_mutually_exclusive_regions A indicator_alleles
                     in if indicator_regions = [] \<or> novel_regions = [] then None
                        else
                          let novel_regions' =
                                (if last indicator_regions = hd novel_regions
                                 then tl novel_regions else novel_regions);
                              test_tree1 =
                                (if \<not> in_holdout_mode g
                                 then clear_indicators C (target limits) indicator_regions test_tree0
                                 else test_tree0);
                              test_tree2 = add_novel_regions C limits novel_alleles novel_regions'
                                             novel_regions' 0 test_tree1;
                              next1 = (if \<not> tree_is_empty T test_tree2
                                       then tree_encompassing_region T test_tree2
                                       else novel_region);
                              next2 = (if next1 = active
                                       then walk (read_ops C) (g_default_walker g) active
                                              (g_reads g) (g_alleles g)
                                       else next1)
                          in Some (g\<lparr>g_next_active_region := Some next2\<rparr>))"

definition update_next_active_region ::
  "('t, 'h, 'r, 'w) Collaborators \<Rightarrow> ('t, 'r, 'w) HaplotypeGenerator
   \<Rightarrow> ('t, 'r, 'w) HaplotypeGenerator option" where
  "update_next_active_region C g =
     (if g_next_active_region g = None
      then if is_lagging_enabled g \<or> in_holdout_mode g
           then update_lagged_next_active_region C g
           else Some (g\<lparr>g_next_active_region :=
                  Some (walk (read_ops C) (g_default_walker g) (g_active_region g) (g_reads g)
                          (g_alleles g))\<rparr>)
      else Some g)"

definition progress ::
  "('t, 'h, 'r, 'w) Collaborators \<Rightarrow> GenomicRegion \<Rightarrow> ('t, 'r, 'w) HaplotypeGenerator
   \<Rightarrow> ('t, 'r, 'w) HaplotypeGenerator" where
  "progress C to g =
     (if to = g_active_region g then g
      else let g1 = g\<lparr>g_next_active_region := Some to\<rparr>;
               R = region_ops C; A = allele_ops C; T = tree_ops C
           in if in_holdout_mode g1 then g1
              else if begins_before R (g_active_region g1) to
              then let passed_region = left_overhang_region R (g_active_region g1) to;
                       passed_alleles = overlap_range A (g_alleles g1) passed_region
                   in if passed_alleles = [] then g1
                      else let removals = clear_passed C (g_active_region g1) to passed_alleles
                                            passed_region
                           in g1\<lparr>g_alleles := fold (erase_overlapped A) removals (g_alleles g1),
                                 g_tree := fold (tree_clear_region T) removals (g_tree g1)\<rparr>
              else if is_after R to (g_active_region g1)
              then g1\<lparr>g_tree := tree_clear T (g_tree g1)\<rparr>
              else g1)"

text \<open>
  \<^verbatim>\<open>extract_holdouts\<close>. The vector \<^verbatim>\<open>interaction_counts\<close> is kept reversed, so that its
  \<^verbatim>\<open>back()\<close> is the head of the list. \<^verbatim>\<open>std::exp2\<close> of the count is converted to
  \<^verbatim>\<open>unsigned\<close>, which is defined only below \<open>2 ^ 32\<close>.
\<close>

definition require_more_holdouts ::
  "('t, 'h, 'r, 'w) Collaborators \<Rightarrow> Allele list \<Rightarrow> GenomicRegion \<Rightarrow> unsigned \<Rightarrow> bool option" where
  "require_more_holdouts C alleles next_active_region haplotype_limit =
     (if alleles = [] then Some False
      else if count_overlapped (allele_ops C) alleles next_active_region < 32
      then Some (2 ^ count_overlapped (allele_ops C) alleles next_active_region
                  > unat haplotype_limit)
      else None)"

fun find_index_from :: "('a \<Rightarrow> bool) \<Rightarrow> 'a list \<Rightarrow> nat \<Rightarrow> nat \<Rightarrow> nat" where
  "find_index_from P xs i 0 = i"
| "find_index_from P xs i (Suc n) =
     (if i < length xs \<and> \<not> P (xs ! i) then find_index_from P xs (Suc i) n else i)"

definition holdout_step ::
  "('t, 'h, 'r, 'w) Collaborators \<Rightarrow> ('t, 'r, 'w) HaplotypeGenerator
   \<Rightarrow> GenomicRegion \<Rightarrow> Allele list \<Rightarrow> GenomicRegion \<Rightarrow> HoldoutSet list \<Rightarrow> Allele list
   \<Rightarrow> (bool \<times> Allele list \<times> GenomicRegion \<times> HoldoutSet list \<times> Allele list) option" where
  "holdout_step C g chosen_holdout_region active_alleles next_active_region holdouts new_holdouts =
     (let contained = contained_bases (allele_ops C) active_alleles chosen_holdout_region;
          it1 = find_index_from (\<lambda>allele. mapped_region allele = chosen_holdout_region)
                  active_alleles (fst contained) (snd contained - fst contained)
      in if \<not> it1 < snd contained \<or> \<not> snd contained \<le> length active_alleles then None
         else
           let it2 = find_index_from (\<lambda>allele. mapped_region allele \<noteq> chosen_holdout_region)
                       active_alleles (Suc it1) (snd contained - Suc it1);
               block = take (it2 - it1) (drop it1 active_alleles);
               active_alleles' = take it1 active_alleles @ drop it2 active_alleles;
               next_active_region' =
                 walk (read_ops C) (g_default_walker g)
                   (head_region (region_ops C) next_active_region) (g_reads g) active_alleles'
           in map_option
                (\<lambda>more. (more, active_alleles', next_active_region',
                          \<lparr>holdout_alleles = block,
                           holdout_set_region = chosen_holdout_region\<rparr> # holdouts,
                          new_holdouts @ block))
                (require_more_holdouts C active_alleles' next_active_region'
                   (holdout (haplotype_limits (g_policies g)))))"

fun holdout_loop ::
  "('t, 'h, 'r, 'w) Collaborators \<Rightarrow> ('t, 'r, 'w) HaplotypeGenerator
   \<Rightarrow> (GenomicRegion \<times> nat) list \<Rightarrow> Allele list \<Rightarrow> GenomicRegion
   \<Rightarrow> HoldoutSet list \<Rightarrow> Allele list \<Rightarrow> (HoldoutSet list \<times> Allele list) option" where
  "holdout_loop C g [] active_alleles next_active_region holdouts new_holdouts = None"
| "holdout_loop C g (chosen # interaction_counts) active_alleles next_active_region
       holdouts new_holdouts =
     (case holdout_step C g (fst chosen) active_alleles next_active_region holdouts
             new_holdouts of
        None \<Rightarrow> None
      | Some s \<Rightarrow>
          if fst s
          then holdout_loop C g interaction_counts (fst (snd s)) (fst (snd (snd s)))
                 (fst (snd (snd (snd s)))) (snd (snd (snd (snd s))))
          else Some (snd (snd (snd s))))"

definition extract_holdouts ::
  "('t, 'h, 'r, 'w) Collaborators \<Rightarrow> GenomicRegion \<Rightarrow> ('t, 'r, 'w) HaplotypeGenerator
   \<Rightarrow> ('t, 'r, 'w) HaplotypeGenerator option" where
  "extract_holdouts C next_active_region g =
     (let A = allele_ops C;
          active_alleles = copy_contained A (g_alleles g) next_active_region;
          active_regions = remdups_adj (extract_regions A active_alleles);
          interaction_counts =
            sort_by_count C (map (\<lambda>region. (region, count_overlapped A active_alleles region))
                               active_regions)
      in case holdout_loop C g (rev interaction_counts) active_alleles next_active_region
                (g_active_holdouts g) [] of
           None \<Rightarrow> None
         | Some (holdouts', new_holdouts) \<Rightarrow>
             let sorted_holdouts = sort_alleles A new_holdouts;
                 new_region = encompassing_region_of A sorted_holdouts
             in Some (g\<lparr>g_active_holdouts := holdouts',
                        g_holdout_region :=
                          (case g_holdout_region g of
                             Some hr \<Rightarrow> Some (encompassing_region (region_ops C) hr new_region)
                           | None \<Rightarrow> Some new_region),
                        g_alleles := erase_all A sorted_holdouts (g_alleles g)\<rparr>))"

definition can_reintroduce_holdouts ::
  "('t, 'h, 'r, 'w) Collaborators \<Rightarrow> ('t, 'r, 'w) HaplotypeGenerator \<Rightarrow> bool option" where
  "can_reintroduce_holdouts C g =
     (if \<not> in_holdout_mode g then Some True
      else case g_holdout_region g of
             None \<Rightarrow> None
           | Some hr \<Rightarrow>
               Some (\<not> ends_before (region_ops C) (g_active_region g) hr
                     \<or> \<not> has_overlapped (allele_ops C) (g_alleles g)
                           (right_overhang_region (region_ops C) hr (g_active_region g))))"

definition reintroduce_holdouts ::
  "('t, 'h, 'r, 'w) Collaborators \<Rightarrow> ('t, 'r, 'w) HaplotypeGenerator
   \<Rightarrow> ('t, 'r, 'w) HaplotypeGenerator option" where
  "reintroduce_holdouts C g =
     (case g_active_holdouts g of
        [] \<Rightarrow> None
      | top_frame # rest \<Rightarrow>
          (case g_holdout_region g of
             None \<Rightarrow> None
           | Some hr \<Rightarrow>
               let t1 = splice_tree (tree_ops C) (holdout_alleles top_frame) (g_tree g);
                   t2 = (if ends_before (region_ops C) hr (g_active_region g)
                         then extend_tree (tree_ops C)
                                (contained_range (allele_ops C) (g_alleles g)
                                   (right_overhang_region (region_ops C) (g_active_region g) hr))
                                t1
                         else t1)
               in Some (g\<lparr>g_tree := t2,
                          g_alleles := insert_all (allele_ops C) (holdout_alleles top_frame) (g_alleles g),
                          g_active_holdouts := rest,
                          g_holdout_region := (if rest = [] then None else Some hr)\<rparr>)))"

definition sum_indel_sizes :: "('t, 'h, 'r, 'w) Collaborators \<Rightarrow> Allele list \<Rightarrow> nat" where
  "sum_indel_sizes C alleles =
     fold (\<lambda>allele curr.
             if is_insertion (allele_ops C) allele then curr + length (sequence allele)
             else if is_deletion (allele_ops C) allele
             then curr + (region_end (mapped_region allele) - region_begin (mapped_region allele))
             else curr)
       alleles 0"

definition calculate_haplotype_region ::
  "('t, 'h, 'r, 'w) Collaborators \<Rightarrow> ('t, 'r, 'w) HaplotypeGenerator \<Rightarrow> GenomicRegion" where
  "calculate_haplotype_region C g =
     (let overlapped = overlap_range (allele_ops C) (g_alleles g) (g_active_region g);
          additional_padding = 2 * sum_indel_sizes C overlapped + g_min_flank_pad g
      in if has_overlapped_reads (read_ops C) (g_reads g) (g_active_region g)
         then let lhs_read = leftmost_overlapped (read_ops C) (g_reads g) (g_active_region g);
                  rhs_read = rightmost_overlapped (read_ops C) (g_reads g) (g_active_region g);
                  unpadded_region = encompassing_region (region_ops C) lhs_read rhs_read
              in if region_begin lhs_read < additional_padding div 2
                 then expand (region_ops C) unpadded_region (int (region_begin lhs_read))
                        (int (additional_padding - region_begin lhs_read))
                 else expand (region_ops C) unpadded_region (int (additional_padding div 2))
                        (int (additional_padding div 2))
         else expand (region_ops C) (g_active_region g) (int (additional_padding div 2))
                (int (additional_padding div 2)))"

text \<open>
  \<^verbatim>\<open>generate\<close>. The result is the packet or the thrown \<^verbatim>\<open>HaplotypeOverflow\<close>, together with
  the generator as the call leaves it (an exception leaves the members as they were when it
  was thrown).
\<close>

type_synonym 'h HaplotypePacket = "'h list \<times> GenomicRegion"

definition finish_generate ::
  "('t, 'h, 'r, 'w) Collaborators \<Rightarrow> ('t, 'r, 'w) HaplotypeGenerator
   \<Rightarrow> (HaplotypeOverflow + 'h HaplotypePacket) \<times> ('t, 'r, 'w) HaplotypeGenerator" where
  "finish_generate C g =
     (let haplotypes = extract_haplotypes (tree_ops C) (calculate_haplotype_region C g) (g_tree g);
          g' = (if \<not> is_lagging_enabled g then g\<lparr>g_tree := tree_clear (tree_ops C) (g_tree g)\<rparr>
                else g)
      in (Inr (haplotypes, g_active_region g), g'))"

definition throw_overflow ::
  "('t, 'h, 'r, 'w) Collaborators \<Rightarrow> ('t, 'r, 'w) HaplotypeGenerator
   \<Rightarrow> (HaplotypeOverflow + 'h HaplotypePacket) \<times> ('t, 'r, 'w) HaplotypeGenerator" where
  "throw_overflow C g =
     (Inl (HaplotypeOverflow (g_active_region g) (num_haplotypes (tree_ops C) (g_tree g))), g)"

definition extend_in_holdout_mode ::
  "('t, 'h, 'r, 'w) Collaborators \<Rightarrow> GenomicRegion \<Rightarrow> ('t, 'r, 'w) HaplotypeGenerator
   \<Rightarrow> ((HaplotypeOverflow + 'h HaplotypePacket) \<times> ('t, 'r, 'w) HaplotypeGenerator) option" where
  "extend_in_holdout_mode C novel_active_region g =
     (case extract_holdouts C novel_active_region g of
        None \<Rightarrow> None
      | Some g1 \<Rightarrow>
          let g2 = g1\<lparr>g_tree := tree_clear_region (tree_ops C) novel_active_region (g_tree g1)\<rparr>
          in (case update_next_active_region C g2 of
                None \<Rightarrow> None
              | Some g3 \<Rightarrow>
                  (case g_next_active_region g3 of
                     None \<Rightarrow> None
                   | Some next_region \<Rightarrow>
                       let g4 = reset_next_active_region (g3\<lparr>g_active_region := next_region\<rparr>);
                           new_novel_alleles =
                             overlap_range (allele_ops C) (g_alleles g4) (g_active_region g4);
                           r = extend_tree_until (tree_ops C) new_novel_alleles (g_tree g4)
                                 (overflow (haplotype_limits (g_policies g4)));
                           g5 = g4\<lparr>g_tree := snd r\<rparr>
                       in if fst r < length new_novel_alleles then Some (throw_overflow C g5)
                          else Some (finish_generate C g5))))"

definition generate ::
  "('t, 'h, 'r, 'w) Collaborators \<Rightarrow> ('t, 'r, 'w) HaplotypeGenerator
   \<Rightarrow> ((HaplotypeOverflow + 'h HaplotypePacket) \<times> ('t, 'r, 'w) HaplotypeGenerator) option" where
  "generate C g =
     (if g_alleles g = [] then Some (Inr ([], g_active_region g), g)
      else case (if in_holdout_mode g then can_reintroduce_holdouts C g else Some False) of
        None \<Rightarrow> None
      | Some True \<Rightarrow>
          (case reintroduce_holdouts C g of
             None \<Rightarrow> None
           | Some g1 \<Rightarrow>
               if num_haplotypes (tree_ops C) (g_tree g1)
                    > overflow (haplotype_limits (g_policies g1))
               then Some (throw_overflow C g1)
               else Some (finish_generate C
                            (reset_next_active_region
                               (g1\<lparr>g_active_region :=
                                      tree_encompassing_region (tree_ops C) (g_tree g1)\<rparr>))))
      | Some False \<Rightarrow>
          (case update_next_active_region C g of
             None \<Rightarrow> None
           | Some g1 \<Rightarrow>
               (case g_next_active_region g1 of
                  None \<Rightarrow> None
                | Some next_region \<Rightarrow>
                    if is_after (region_ops C) next_region (mapped_region (g_rightmost_allele g1))
                    then Some (Inr ([], next_region), g1)
                    else
                      let g2 = progress C next_region g1;
                          novel_active_region =
                            (if \<not> tree_is_empty (tree_ops C) (g_tree g2)
                             then right_overhang_region (region_ops C) next_region
                                    (g_active_region g2)
                             else next_region);
                          novel_active_alleles =
                            overlap_range (allele_ops C) (g_alleles g2) novel_active_region;
                          r = extend_tree_until (tree_ops C) novel_active_alleles (g_tree g2)
                                (holdout (haplotype_limits (g_policies g2)));
                          g3 = g2\<lparr>g_tree := snd r\<rparr>
                      in if fst r < length novel_active_alleles
                         then let g4 = reset_next_active_region g3
                              in if can_extract_holdouts g4 novel_active_region
                                 then extend_in_holdout_mode C novel_active_region g4
                                 else
                                   let r2 = extend_tree_until (tree_ops C)
                                              (drop (fst r) novel_active_alleles) (g_tree g4)
                                              (overflow (haplotype_limits (g_policies g4)));
                                       g5 = g4\<lparr>g_tree := snd r2,
                                              g_active_region :=
                                                tree_encompassing_region (tree_ops C) (snd r2)\<rparr>
                                   in if fst r2 < length (drop (fst r) novel_active_alleles)
                                      then Some (throw_overflow C g5)
                                      else Some (finish_generate C g5)
                         else Some (finish_generate C
                                      (reset_next_active_region
                                         (g3\<lparr>g_active_region := next_region\<rparr>))))))"









text \<open>
  A small instance of the collaborators for the examples: regions of one contig with the
  usual interval arithmetic, a tree that holds the list of its alleles and doubles its
  haplotypes with every allele, and a walker that steps to the alleles right of the
  active region.
\<close>

definition toy_region :: "nat \<Rightarrow> nat \<Rightarrow> GenomicRegion" where
  "toy_region b e = \<lparr>contig_name = ''chr1'', region_begin = b, region_end = e\<rparr>"

definition toy_overlaps :: "GenomicRegion \<Rightarrow> GenomicRegion \<Rightarrow> bool" where
  "toy_overlaps a b = (region_begin a < region_end b \<and> region_begin b < region_end a)"

definition toy_contains :: "GenomicRegion \<Rightarrow> GenomicRegion \<Rightarrow> bool" where
  "toy_contains a b = (region_begin a \<le> region_begin b \<and> region_end b \<le> region_end a)"

definition toy_encompassing :: "GenomicRegion \<Rightarrow> GenomicRegion \<Rightarrow> GenomicRegion" where
  "toy_encompassing a b =
     toy_region (min (region_begin a) (region_begin b)) (max (region_end a) (region_end b))"

definition toy_encompassing_of :: "Allele list \<Rightarrow> GenomicRegion" where
  "toy_encompassing_of xs =
     (case xs of [] \<Rightarrow> toy_region 0 0
      | x # ys \<Rightarrow> fold (\<lambda>a r. toy_encompassing r (mapped_region a)) ys (mapped_region x))"

definition toy_region_ops :: RegionOps where
  "toy_region_ops =
     \<lparr>is_after = (\<lambda>a b. region_end b \<le> region_begin a \<and> a \<noteq> b),
      begins_before = (\<lambda>a b. region_begin a < region_begin b),
      ends_before = (\<lambda>a b. region_end a < region_end b),
      overlaps = toy_overlaps,
      contains_region = toy_contains,
      is_empty_region = (\<lambda>a. region_begin a = region_end a),
      is_position = (\<lambda>a. region_end a = region_begin a + 1),
      left_overhang_region = (\<lambda>a b. toy_region (region_begin a) (max (region_begin a) (region_begin b))),
      right_overhang_region = (\<lambda>a b. toy_region (min (region_end a) (region_end b)) (region_end a)),
      overlapped_region = (\<lambda>a b. toy_region (max (region_begin a) (region_begin b))
                                      (min (region_end a) (region_end b))),
      encompassing_region = toy_encompassing,
      head_region = (\<lambda>a. toy_region (region_begin a) (region_begin a)),
      tail_region = (\<lambda>a. toy_region (region_end a) (region_end a)),
      shift = (\<lambda>a n. toy_region (nat (int (region_begin a) + n)) (nat (int (region_end a) + n))),
      expand_rhs = (\<lambda>a n. toy_region (region_begin a) (nat (int (region_end a) + n))),
      expand = (\<lambda>a l r. toy_region (nat (int (region_begin a) - l)) (nat (int (region_end a) + r)))\<rparr>"

definition toy_allele_ops :: AlleleOps where
  "toy_allele_ops =
     \<lparr>overlap_range = (\<lambda>xs r. filter (\<lambda>a. toy_overlaps (mapped_region a) r) xs),
      contained_range = (\<lambda>xs r. filter (\<lambda>a. toy_contains r (mapped_region a)) xs),
      contained_bases = (\<lambda>xs r. (0, length xs)),
      copy_contained = (\<lambda>xs r. filter (\<lambda>a. toy_contains r (mapped_region a)) xs),
      count_overlapped = (\<lambda>xs r. length (filter (\<lambda>a. toy_overlaps (mapped_region a) r) xs)),
      has_overlapped = (\<lambda>xs r. \<exists>a \<in> set xs. toy_overlaps (mapped_region a) r),
      rightmost_region = (\<lambda>xs. mapped_region (last xs)),
      encompassing_region_of = toy_encompassing_of,
      extract_regions = map mapped_region,
      extract_mutually_exclusive_regions = (\<lambda>xs. remdups_adj (map mapped_region xs)),
      erase_overlapped = (\<lambda>r xs. filter (\<lambda>a. \<not> toy_overlaps (mapped_region a) r) xs),
      erase_all = (\<lambda>ys xs. filter (\<lambda>a. a \<notin> set ys) xs),
      insert_all = (\<lambda>ys xs. sort_key (\<lambda>a. region_begin (mapped_region a)) (ys @ xs)),
      sort_alleles = sort_key (\<lambda>a. region_begin (mapped_region a)),
      is_insertion = (\<lambda>a. region_begin (mapped_region a) = region_end (mapped_region a)),
      is_deletion = (\<lambda>a. sequence a = [])\<rparr>"

fun toy_extend_until :: "Allele list \<Rightarrow> Allele list \<Rightarrow> unsigned \<Rightarrow> nat \<times> Allele list" where
  "toy_extend_until [] t limit = (0, t)"
| "toy_extend_until (a # as) t limit =
     (if 2 ^ Suc (length t) \<le> unat limit
      then (case toy_extend_until as (t @ [a]) limit of (i, t') \<Rightarrow> (Suc i, t'))
      else (0, t))"

definition toy_tree_ops :: "(Allele list, Allele list) TreeOps" where
  "toy_tree_ops =
     \<lparr>num_haplotypes = (\<lambda>t. of_nat (2 ^ length t)),
      tree_is_empty = (\<lambda>t. t = []),
      tree_encompassing_region = toy_encompassing_of,
      tree_clear = (\<lambda>t. []),
      tree_clear_region = (\<lambda>r t. filter (\<lambda>a. \<not> toy_overlaps (mapped_region a) r) t),
      extract_haplotypes = (\<lambda>r t. subseqs t),
      extend_tree_until = toy_extend_until,
      extend_tree = (\<lambda>xs t. t @ xs),
      splice_tree = (\<lambda>xs t. xs @ t)\<rparr>"

definition toy_walk :: "unit \<Rightarrow> GenomicRegion \<Rightarrow> unit \<Rightarrow> Allele list \<Rightarrow> GenomicRegion" where
  "toy_walk w active reads xs =
     (case filter (\<lambda>a. region_end active \<le> region_begin (mapped_region a)) xs of
        [] \<Rightarrow> toy_region (region_end active + 2) (region_end active + 2)
      | y # ys \<Rightarrow> toy_encompassing_of (y # ys))"

definition toy_read_ops :: "(unit, unit) ReadOps" where
  "toy_read_ops =
     \<lparr>walk = toy_walk,
      has_overlapped_reads = (\<lambda>reads r. False),
      leftmost_overlapped = (\<lambda>reads r. r),
      rightmost_overlapped = (\<lambda>reads r. r)\<rparr>"

definition toy :: "(Allele list, Allele list, unit, unit) Collaborators" where
  "toy = \<lparr>tree_ops = toy_tree_ops, region_ops = toy_region_ops,
          allele_ops = toy_allele_ops, read_ops = toy_read_ops, sort_by_count = sort_key snd\<rparr>"

definition snp :: "nat \<Rightarrow> Allele" where
  "snp p = \<lparr>mapped_region = toy_region p (p + 1), sequence = ''A''\<rparr>"

definition toy_generator ::
  "Allele list \<Rightarrow> GenomicRegion \<Rightarrow> unsigned \<Rightarrow> (Allele list, unit, unit) HaplotypeGenerator" where
  "toy_generator xs active depth =
     \<lparr>g_policies = \<lparr>lagging = none,
                     haplotype_limits = \<lparr>target = 4, holdout = 8, overflow = 16\<rparr>,
                     max_holdout_depth = depth\<rparr>,
      g_min_flank_pad = 0, g_tree = [], g_default_walker = (), g_holdout_walker = (),
      g_lagged_walker = None, g_alleles = xs, g_reads = (),
      g_active_region = active, g_next_active_region = None,
      g_active_holdouts = [], g_holdout_region = None, g_rightmost_allele = last xs\<rparr>"


definition overflow_example :: "(Allele list, unit, unit) HaplotypeGenerator" where
  "overflow_example = toy_generator (map snp [10, 11, 12, 13, 14, 15]) (toy_region 9 9) 0"

definition finished_example :: "(Allele list, unit, unit) HaplotypeGenerator" where
  "finished_example = toy_generator (map snp [10, 11, 12]) (toy_region 10 13) 2"







section \<open>Read manager: the open-file budget\<close>

text \<open>
  \<^verbatim>\<open>ReadManager\<close> keeps \<^verbatim>\<open>closed_readers_\<close> (an unordered set of paths, here a duplicate-free
  list in an arbitrary fixed iteration order) and \<^verbatim>\<open>open_readers_\<close>, an ordered map from
  path to reader whose comparator is \<^verbatim>\<open>FileSizeCompare\<close>:
  \<^verbatim>\<open>file_size(lhs) < file_size(rhs)\<close>. The readers themselves play no part in the
  bookkeeping, so the map is the list of its keys in ascending order. Two keys are
  equivalent for the map when neither compares less than the other, that is, when the two
  files have the same size. The file sizes are a parameter \<open>fs\<close>. The members
  \<^verbatim>\<open>x_\<close> of the class are the fields \<open>m_x\<close> of the record.
\<close>

type_synonym Path = string

record ReadManager =
  m_max_open_files :: nat
  m_num_files :: nat
  m_closed_readers :: "Path list"
  m_open_readers :: "Path list"

definition FileSizeCompare :: "(Path \<Rightarrow> nat) \<Rightarrow> Path \<Rightarrow> Path \<Rightarrow> bool" where
  "FileSizeCompare fs lhs rhs = (fs lhs < fs rhs)"

text \<open>\<^verbatim>\<open>std::map::emplace\<close>: nothing is inserted when an equivalent key is present.\<close>

fun map_emplace :: "(Path \<Rightarrow> nat) \<Rightarrow> Path \<Rightarrow> Path list \<Rightarrow> Path list" where
  "map_emplace fs p [] = [p]"
| "map_emplace fs p (q # qs) =
     (if FileSizeCompare fs p q then p # q # qs
      else if FileSizeCompare fs q p then q # map_emplace fs p qs
      else q # qs)"

text \<open>\<^verbatim>\<open>std::map::erase(key)\<close> and \<^verbatim>\<open>count(key)\<close> work up to equivalence of keys.\<close>

definition map_erase :: "(Path \<Rightarrow> nat) \<Rightarrow> Path \<Rightarrow> Path list \<Rightarrow> Path list" where
  "map_erase fs p qs = filter (\<lambda>q. FileSizeCompare fs q p \<or> FileSizeCompare fs p q) qs"

definition map_count :: "(Path \<Rightarrow> nat) \<Rightarrow> Path \<Rightarrow> Path list \<Rightarrow> nat" where
  "map_count fs p qs =
     length (filter (\<lambda>q. \<not> FileSizeCompare fs q p \<and> \<not> FileSizeCompare fs p q) qs)"

text \<open>\<^verbatim>\<open>std::unordered_set::insert\<close> and \<^verbatim>\<open>erase\<close> on the closed set.\<close>

definition set_insert :: "Path \<Rightarrow> Path list \<Rightarrow> Path list" where
  "set_insert p qs = (if p \<in> set qs then qs else qs @ [p])"

definition set_erase :: "Path \<Rightarrow> Path list \<Rightarrow> Path list" where
  "set_erase p qs = removeAll p qs"

definition is_open :: "(Path \<Rightarrow> nat) \<Rightarrow> ReadManager \<Rightarrow> Path \<Rightarrow> bool" where
  "is_open fs m reader_path = (map_count fs reader_path (m_open_readers m) = 1)"

definition num_open_readers :: "ReadManager \<Rightarrow> nat" where
  "num_open_readers m = length (m_open_readers m)"

text \<open>\<^verbatim>\<open>max_open_files_ - num_open_readers()\<close> on \<^verbatim>\<open>unsigned\<close>, which wraps below zero.\<close>

definition num_reader_spaces :: "ReadManager \<Rightarrow> nat" where
  "num_reader_spaces m =
     (if num_open_readers m \<le> m_max_open_files m
      then m_max_open_files m - num_open_readers m
      else 2 ^ 32 - (num_open_readers m - m_max_open_files m) mod 2 ^ 32)"

definition all_readers_are_open :: "ReadManager \<Rightarrow> bool" where
  "all_readers_are_open m = (m_num_files m \<le> m_max_open_files m)"

text \<open>
  \<^verbatim>\<open>open_readers_.begin()->first\<close>: the smallest open file. On an empty map the source
  dereferences the end iterator; the model reports that as \<open>None\<close>.
\<close>

definition choose_reader_to_close :: "ReadManager \<Rightarrow> Path option" where
  "choose_reader_to_close m = (case m_open_readers m of [] \<Rightarrow> None | p # _ \<Rightarrow> Some p)"

definition close_reader :: "(Path \<Rightarrow> nat) \<Rightarrow> Path \<Rightarrow> ReadManager \<Rightarrow> ReadManager" where
  "close_reader fs reader_path m =
     m\<lparr>m_open_readers := map_erase fs reader_path (m_open_readers m),
       m_closed_readers := set_insert reader_path (m_closed_readers m)\<rparr>"

fun close_readers :: "(Path \<Rightarrow> nat) \<Rightarrow> nat \<Rightarrow> ReadManager \<Rightarrow> ReadManager option" where
  "close_readers fs 0 m = Some m"
| "close_readers fs (Suc n) m =
     (case choose_reader_to_close m of
        None \<Rightarrow> None
      | Some p \<Rightarrow> close_readers fs n (close_reader fs p m))"

definition emplace_reader :: "(Path \<Rightarrow> nat) \<Rightarrow> Path \<Rightarrow> ReadManager \<Rightarrow> ReadManager" where
  "emplace_reader fs reader_path m =
     m\<lparr>m_open_readers := map_emplace fs reader_path (m_open_readers m),
       m_closed_readers := set_erase reader_path (m_closed_readers m)\<rparr>"

definition open_reader :: "(Path \<Rightarrow> nat) \<Rightarrow> Path \<Rightarrow> ReadManager \<Rightarrow> ReadManager option" where
  "open_reader fs reader_path m =
     (if num_open_readers m = m_max_open_files m
      then (case choose_reader_to_close m of
              None \<Rightarrow> None
            | Some q \<Rightarrow> Some (emplace_reader fs reader_path (close_reader fs q m)))
      else Some (emplace_reader fs reader_path m))"

fun open_each :: "(Path \<Rightarrow> nat) \<Rightarrow> Path list \<Rightarrow> ReadManager \<Rightarrow> ReadManager option" where
  "open_each fs [] m = Some m"
| "open_each fs (p # ps) m =
     (case open_reader fs p m of None \<Rightarrow> None | Some m' \<Rightarrow> open_each fs ps m')"

text \<open>
  \<^verbatim>\<open>open_readers(first, last)\<close> on the range \<open>ps\<close>: returns the index of the first path of
  the range that it opened, with the new state.
\<close>

definition open_readers :: "(Path \<Rightarrow> nat) \<Rightarrow> Path list \<Rightarrow> ReadManager \<Rightarrow> (nat \<times> ReadManager) option" where
  "open_readers fs ps m =
     (if ps = [] then Some (0, m)
      else let num_available_spaces = num_reader_spaces m;
               num_requested_spaces = length ps
           in if num_requested_spaces \<le> num_available_spaces
              then map_option (Pair 0) (open_each fs ps m)
              else let num_readers_to_close =
                         min (num_open_readers m) (num_requested_spaces - num_available_spaces)
                   in case close_readers fs num_readers_to_close m of
                        None \<Rightarrow> None
                      | Some m1 \<Rightarrow>
                          let first_open =
                                num_requested_spaces - (num_available_spaces + num_readers_to_close)
                          in map_option (Pair first_open) (open_each fs (drop first_open ps) m1))"

text \<open>
  \<^verbatim>\<open>open_initial_files\<close>: \<^verbatim>\<open>std::nth_element\<close> brings the \<open>num_files_to_open\<close> smallest
  files to the front; the fully sorted vector is one of its outcomes.
\<close>

definition open_initial_files :: "(Path \<Rightarrow> nat) \<Rightarrow> ReadManager \<Rightarrow> ReadManager option" where
  "open_initial_files fs m =
     (let reader_paths = m_closed_readers m;
          num_files_to_open = min (m_max_open_files m) (length (m_closed_readers m))
      in map_option snd
           (open_readers fs (take num_files_to_open (sort_key fs reader_paths)) m))"

definition ReadManager_new :: "(Path \<Rightarrow> nat) \<Rightarrow> Path list \<Rightarrow> nat \<Rightarrow> ReadManager option" where
  "ReadManager_new fs read_file_paths max_open_files =
     open_initial_files fs
       \<lparr>m_max_open_files = max_open_files,
        m_num_files = length read_file_paths,
        m_closed_readers = remdups read_file_paths,
        m_open_readers = []\<rparr>"

text \<open>
  Every query (\<^verbatim>\<open>has_reads\<close>, \<^verbatim>\<open>count_reads\<close>, \<^verbatim>\<open>fetch_reads\<close>,
  \<^verbatim>\<open>find_covered_subregion\<close>) that finds not all readers open runs the same loop over
  its candidate paths: \<^verbatim>\<open>partition_open\<close> moves the open candidates to the back, the open
  slice is processed and erased, and \<^verbatim>\<open>open_readers\<close> opens a further slice of what is
  left. \<open>query_steps n\<close> is the manager after at most \<open>n\<close> rounds of that loop, so the
  states \<open>query_steps n\<close> for all \<open>n\<close> are all the states a query passes through.
\<close>

definition partition_open :: "(Path \<Rightarrow> nat) \<Rightarrow> ReadManager \<Rightarrow> Path list \<Rightarrow> Path list \<times> nat" where
  "partition_open fs m reader_paths =
     (filter (\<lambda>p. \<not> is_open fs m p) reader_paths @ filter (is_open fs m) reader_paths,
      length (filter (\<lambda>p. \<not> is_open fs m p) reader_paths))"

fun query_steps :: "nat \<Rightarrow> (Path \<Rightarrow> nat) \<Rightarrow> Path list \<Rightarrow> nat \<Rightarrow> ReadManager \<Rightarrow> ReadManager option" where
  "query_steps 0 fs reader_paths reader_itr m = Some m"
| "query_steps (Suc n) fs reader_paths reader_itr m =
     (if reader_paths = [] then Some m
      else case open_readers fs (take reader_itr reader_paths) m of
             None \<Rightarrow> None
           | Some (itr', m') \<Rightarrow> query_steps n fs (take reader_itr reader_paths) itr' m')"

definition query :: "(Path \<Rightarrow> nat) \<Rightarrow> nat \<times> Path list \<Rightarrow> ReadManager \<Rightarrow> ReadManager option" where
  "query fs q m =
     (if all_readers_are_open m then Some m
      else case partition_open fs m (snd q) of
             (reader_paths, reader_itr) \<Rightarrow> query_steps (fst q) fs reader_paths reader_itr m)"

fun run_queries :: "(Path \<Rightarrow> nat) \<Rightarrow> (nat \<times> Path list) list \<Rightarrow> ReadManager \<Rightarrow> ReadManager option" where
  "run_queries fs [] m = Some m"
| "run_queries fs (q # qs) m =
     (case query fs q m of None \<Rightarrow> None | Some m' \<Rightarrow> run_queries fs qs m')"

text \<open>The three parts of the invariant of the claim, for the input path list \<open>paths\<close>.\<close>

definition budget_invariant :: "Path list \<Rightarrow> ReadManager \<Rightarrow> bool" where
  "budget_invariant paths m =
     (length (m_open_readers m) \<le> m_max_open_files m
      \<and> set (m_open_readers m) \<inter> set (m_closed_readers m) = {}
      \<and> set (m_open_readers m) \<union> set (m_closed_readers m) = set paths)"

definition sizes_example :: "Path \<Rightarrow> nat" where
  "sizes_example p = (if p = ''a.bam'' \<or> p = ''b.bam'' then 7 else 10 + length p)"

section \<open>Read manager: coverage-bounded subregions\<close>

type_synonym SampleName = string
type_synonym ContigRegion = "nat \<times> nat"

definition contig_region :: "GenomicRegion \<Rightarrow> ContigRegion" where
  "contig_region region = (region_begin region, region_end region)"

text \<open>
  Modelled from the spec: the interval arithmetic on regions (\<^verbatim>\<open>is_empty\<close>, \<^verbatim>\<open>is_before\<close>,
  \<^verbatim>\<open>ends_before\<close>, \<^verbatim>\<open>closed_region\<close>, \<^verbatim>\<open>expand_rhs\<close>, \<^verbatim>\<open>tail_position\<close>) is not under
  \<^verbatim>\<open>src/\<close>. Regions are half-open and 0-based; a region is empty iff begin = end;
  \<^verbatim>\<open>closed_region(l, r)\<close> runs from the begin of \<open>l\<close> to the end of \<open>r\<close>, \<^verbatim>\<open>expand_rhs\<close> moves
  the end of a region, and \<^verbatim>\<open>tail_position\<close> is the last position of a region.
\<close>

definition region_is_empty :: "GenomicRegion \<Rightarrow> bool" where
  "region_is_empty region = (region_begin region = region_end region)"

definition contig_is_before :: "ContigRegion \<Rightarrow> ContigRegion \<Rightarrow> bool" where
  "contig_is_before lhs rhs = (snd lhs \<le> fst rhs \<and> lhs \<noteq> rhs)"

definition contig_ends_before :: "ContigRegion \<Rightarrow> ContigRegion \<Rightarrow> bool" where
  "contig_ends_before lhs rhs = (snd lhs < snd rhs)"

definition closed_region :: "ContigRegion \<Rightarrow> ContigRegion \<Rightarrow> ContigRegion" where
  "closed_region lhs rhs = (fst lhs, snd rhs)"

definition region_expand_rhs :: "GenomicRegion \<Rightarrow> nat \<Rightarrow> GenomicRegion" where
  "region_expand_rhs region n = region\<lparr>region_end := region_end region + n\<rparr>"

definition tail_position :: "GenomicRegion \<Rightarrow> GenomicRegion" where
  "tail_position region = region\<lparr>region_begin := region_end region - 1\<rparr>"

text \<open>
  Modelled from the spec: \<^verbatim>\<open>CoverageTracker\<close> (\<^verbatim>\<open>utils/coverage_tracker.hpp\<close>) is not under
  \<^verbatim>\<open>src/\<close>. It keeps the per-position coverage of the regions added to it: the coverage of
  a position is the number of added regions that contain it, the total coverage of a region
  is the sum over its positions, and the encompassing region spans all added regions.
\<close>

type_synonym CoverageTracker = "ContigRegion list"

definition tracker_add :: "ContigRegion \<Rightarrow> CoverageTracker \<Rightarrow> CoverageTracker" where
  "tracker_add region tracker = tracker @ [region]"

definition tracker_is_empty :: "CoverageTracker \<Rightarrow> bool" where
  "tracker_is_empty tracker = (tracker = [])"

definition tracker_encompassing_region :: "CoverageTracker \<Rightarrow> ContigRegion option" where
  "tracker_encompassing_region tracker =
     (case tracker of
        [] \<Rightarrow> None
      | r # rs \<Rightarrow> Some (fold (\<lambda>a b. min (fst a) b) rs (fst r), fold (\<lambda>a b. max (snd a) b) rs (snd r)))"

definition tracker_coverage :: "CoverageTracker \<Rightarrow> ContigRegion \<Rightarrow> nat list" where
  "tracker_coverage tracker region =
     map (\<lambda>p. length (filter (\<lambda>a. fst a \<le> p \<and> p < snd a) tracker)) [fst region..<snd region]"

definition tracker_total_coverage :: "CoverageTracker \<Rightarrow> ContigRegion \<Rightarrow> nat" where
  "tracker_total_coverage tracker region = sum_list (tracker_coverage tracker region)"

text \<open>
  Modelled from the spec: the read file reader is not under \<^verbatim>\<open>src/\<close>. A file is the list of
  its reads, each with its sample, contig and begin position, in file order;
  \<^verbatim>\<open>extract_read_positions(samples, region, max)\<close> yields the begin positions of the first
  \<open>max\<close> reads of the samples that start in the region.
\<close>

type_synonym ReadFile = "(SampleName \<times> string \<times> nat) list"

definition extract_read_positions ::
  "ReadFile \<Rightarrow> SampleName list \<Rightarrow> GenomicRegion \<Rightarrow> nat \<Rightarrow> nat list" where
  "extract_read_positions file samples region max_coverage =
     take max_coverage
       (map (\<lambda>r. snd (snd r))
          (filter (\<lambda>r. fst r \<in> set samples \<and> fst (snd r) = contig_name region
                        \<and> region_begin region \<le> snd (snd r) \<and> snd (snd r) < region_end region)
             file))"

text \<open>\<^verbatim>\<open>add(p, position_tracker)\<close> and the two \<^verbatim>\<open>max_head_region\<close> overloads of the source.\<close>

definition add_position :: "nat \<Rightarrow> CoverageTracker \<Rightarrow> CoverageTracker" where
  "add_position p position_tracker = tracker_add (p, p + 1) position_tracker"

definition max_head_region_of :: "CoverageTracker \<Rightarrow> GenomicRegion \<Rightarrow> GenomicRegion" where
  "max_head_region_of position_tracker region =
     (case tracker_encompassing_region position_tracker of
        Some tracker_region \<Rightarrow>
          if contig_is_before tracker_region (contig_region region)
             \<or> contig_ends_before (contig_region region) tracker_region
          then region
          else region\<lparr>region_begin := fst (closed_region (contig_region region) tracker_region),
                      region_end := snd (closed_region (contig_region region) tracker_region)\<rparr>
      | None \<Rightarrow> region)"

fun partial_sum :: "nat \<Rightarrow> nat list \<Rightarrow> nat list" where
  "partial_sum acc [] = []"
| "partial_sum acc (x # xs) = (acc + x) # partial_sum (acc + x) xs"

definition upper_bound :: "nat list \<Rightarrow> nat \<Rightarrow> nat" where
  "upper_bound xs v = length (takeWhile (\<lambda>x. x \<le> v) xs)"

definition max_head_region :: "CoverageTracker \<Rightarrow> GenomicRegion \<Rightarrow> nat \<Rightarrow> GenomicRegion" where
  "max_head_region position_tracker region max_coverage =
     (if tracker_is_empty position_tracker then region
      else let max_region = max_head_region_of position_tracker region
           in if tracker_total_coverage position_tracker (contig_region max_region) \<le> max_coverage
              then max_region
              else let position_coverage =
                         partial_sum 0 (tracker_coverage position_tracker (contig_region max_region));
                       last_position = upper_bound position_coverage max_coverage
                   in region_expand_rhs max_region last_position)"

text \<open>
  The body of the loops over readers in \<^verbatim>\<open>find_covered_subregion\<close>: the positions of one
  reader are added, and the tail position of the region once, after the first reader that
  has at most \<open>max_reads\<close> positions.
\<close>

definition track_reader ::
  "(Path \<Rightarrow> ReadFile) \<Rightarrow> SampleName list \<Rightarrow> GenomicRegion \<Rightarrow> nat \<Rightarrow> Path
   \<Rightarrow> CoverageTracker \<times> bool \<Rightarrow> CoverageTracker \<times> bool" where
  "track_reader files samples region max_reads reader_path s =
     (let positions = extract_read_positions (files reader_path) samples region (max_reads + 1);
          position_tracker = fold add_position positions (fst s)
      in if length positions \<le> max_reads \<and> \<not> snd s
         then (tracker_add (contig_region (tail_position region)) position_tracker, True)
         else (position_tracker, snd s))"

text \<open>
  \<^verbatim>\<open>open_readers_.at(reader_path)\<close>: the reader stored under the key equivalent to the
  path; \<^verbatim>\<open>std::out_of_range\<close> (here \<open>None\<close>) when there is none.
\<close>

definition map_at :: "(Path \<Rightarrow> nat) \<Rightarrow> Path list \<Rightarrow> Path \<Rightarrow> Path option" where
  "map_at fs qs p =
     (case filter (\<lambda>q. \<not> FileSizeCompare fs q p \<and> \<not> FileSizeCompare fs p q) qs of
        [] \<Rightarrow> None
      | q # _ \<Rightarrow> Some q)"

fun track_batch ::
  "(Path \<Rightarrow> nat) \<Rightarrow> (Path \<Rightarrow> ReadFile) \<Rightarrow> SampleName list \<Rightarrow> GenomicRegion \<Rightarrow> nat
   \<Rightarrow> ReadManager \<Rightarrow> Path list \<Rightarrow> CoverageTracker \<times> bool \<Rightarrow> (CoverageTracker \<times> bool) option" where
  "track_batch fs files samples region max_reads m [] s = Some s"
| "track_batch fs files samples region max_reads m (reader_path # reader_paths) s =
     (case map_at fs (m_open_readers m) reader_path of
        None \<Rightarrow> None
      | Some q \<Rightarrow> track_batch fs files samples region max_reads m reader_paths
                    (track_reader files samples region max_reads q s))"

text \<open>
  \<^verbatim>\<open>get_possible_reader_paths(samples, region)\<close>, from the two maps that the constructor
  fills: the paths of each sample (\<^verbatim>\<open>at\<close> throws for an unknown sample) without
  repetition, less the paths whose indexed regions cannot overlap the region.
  Modelled from the spec: \<^verbatim>\<open>has_overlapped\<close> on the set of regions of a contig is not
  under \<^verbatim>\<open>src/\<close>; it holds when one of the regions overlaps the region.
\<close>

definition has_overlapped_regions :: "ContigRegion list \<Rightarrow> ContigRegion \<Rightarrow> bool" where
  "has_overlapped_regions regions region =
     (\<exists>a \<in> set regions. fst a < snd region \<and> fst region < snd a)"

definition could_reader_contain_region ::
  "(Path \<rightharpoonup> (string \<rightharpoonup> ContigRegion list)) \<Rightarrow> Path \<Rightarrow> GenomicRegion \<Rightarrow> bool" where
  "could_reader_contain_region possible_regions_in_readers reader_path region =
     (case possible_regions_in_readers reader_path of
        None \<Rightarrow> False
      | Some contigs \<Rightarrow>
          (case contigs (contig_name region) of
             None \<Rightarrow> False
           | Some regions \<Rightarrow> has_overlapped_regions regions (contig_region region)))"

fun get_reader_paths_containing_samples ::
  "(SampleName \<rightharpoonup> Path list) \<Rightarrow> SampleName list \<Rightarrow> Path list option" where
  "get_reader_paths_containing_samples reader_paths_containing_sample [] = Some []"
| "get_reader_paths_containing_samples reader_paths_containing_sample (sample # samples) =
     (case reader_paths_containing_sample sample of
        None \<Rightarrow> None
      | Some paths \<Rightarrow>
          map_option (\<lambda>rest. remdups (paths @ rest))
            (get_reader_paths_containing_samples reader_paths_containing_sample samples))"

definition get_possible_reader_paths ::
  "(SampleName \<rightharpoonup> Path list) \<Rightarrow> (Path \<rightharpoonup> (string \<rightharpoonup> ContigRegion list))
   \<Rightarrow> SampleName list \<Rightarrow> GenomicRegion \<Rightarrow> Path list option" where
  "get_possible_reader_paths reader_paths_containing_sample possible_regions_in_readers
       samples region =
     map_option (filter (\<lambda>path. could_reader_contain_region possible_regions_in_readers path region))
       (get_reader_paths_containing_samples reader_paths_containing_sample samples)"

text \<open>
  The loop of \<^verbatim>\<open>find_covered_subregion\<close> when not all readers are open. A round tracks the
  open slice (\<^verbatim>\<open>added_tail_position\<close> starts false in every round), erases it and opens a
  further slice. \<open>None\<close> also stands for a loop that has not ended after \<open>n\<close> rounds.
\<close>

fun covered_steps ::
  "nat \<Rightarrow> (Path \<Rightarrow> nat) \<Rightarrow> (Path \<Rightarrow> ReadFile) \<Rightarrow> SampleName list \<Rightarrow> GenomicRegion \<Rightarrow> nat
   \<Rightarrow> Path list \<Rightarrow> nat \<Rightarrow> CoverageTracker \<Rightarrow> ReadManager
   \<Rightarrow> (CoverageTracker \<times> ReadManager) option" where
  "covered_steps 0 fs files samples region max_reads reader_paths reader_itr tracker m =
     (if reader_paths = [] then Some (tracker, m) else None)"
| "covered_steps (Suc n) fs files samples region max_reads reader_paths reader_itr tracker m =
     (if reader_paths = [] then Some (tracker, m)
      else case track_batch fs files samples region max_reads m (drop reader_itr reader_paths)
                  (tracker, False) of
             None \<Rightarrow> None
           | Some s \<Rightarrow>
               (case open_readers fs (take reader_itr reader_paths) m of
                  None \<Rightarrow> None
                | Some r \<Rightarrow> covered_steps n fs files samples region max_reads
                              (take reader_itr reader_paths) (fst r) (fst s) (snd r)))"

record ReadIndex =
  reader_paths_containing_sample :: "SampleName \<rightharpoonup> Path list"
  possible_regions_in_readers :: "Path \<rightharpoonup> (string \<rightharpoonup> ContigRegion list)"

text \<open>
  The positions that \<^verbatim>\<open>find_covered_subregion\<close> tracks before it calls
  \<^verbatim>\<open>max_head_region\<close>, with the manager as the loops leave it.
\<close>

definition track_positions ::
  "nat \<Rightarrow> (Path \<Rightarrow> nat) \<Rightarrow> (Path \<Rightarrow> ReadFile) \<Rightarrow> ReadIndex \<Rightarrow> SampleName list
   \<Rightarrow> GenomicRegion \<Rightarrow> nat \<Rightarrow> ReadManager \<Rightarrow> (CoverageTracker \<times> ReadManager) option" where
  "track_positions fuel fs files index samples region max_reads m =
     (if all_readers_are_open m
      then Some (fst (fold (track_reader files samples region max_reads) (m_open_readers m)
                        ([], False)), m)
      else case get_possible_reader_paths (reader_paths_containing_sample index)
                  (possible_regions_in_readers index) samples region of
             None \<Rightarrow> None
           | Some paths \<Rightarrow>
               covered_steps fuel fs files samples region max_reads
                 (fst (partition_open fs m paths)) (snd (partition_open fs m paths)) [] m)"

definition find_covered_subregion ::
  "nat \<Rightarrow> (Path \<Rightarrow> nat) \<Rightarrow> (Path \<Rightarrow> ReadFile) \<Rightarrow> ReadIndex \<Rightarrow> SampleName list
   \<Rightarrow> GenomicRegion \<Rightarrow> nat \<Rightarrow> ReadManager \<Rightarrow> (GenomicRegion \<times> ReadManager) option" where
  "find_covered_subregion fuel fs files index samples region max_reads m =
     (if samples = [] \<or> region_is_empty region then Some (region, m)
      else map_option (\<lambda>s. (max_head_region (fst s) region max_reads, snd s))
             (track_positions fuel fs files index samples region max_reads m))"

text \<open>Scenario S5: one file with six reads of sample \<open>S\<close> on \<open>chr1\<close>.\<close>

definition s5_files :: "Path \<Rightarrow> ReadFile" where
  "s5_files p = (if p = ''reads.bam''
                 then map (\<lambda>n. (''S'', ''chr1'', n)) [1000, 1001, 1002, 1050, 1500, 1600]
                 else [])"

definition s5_index :: ReadIndex where
  "s5_index = \<lparr>reader_paths_containing_sample = [''S'' \<mapsto> [''reads.bam'']],
               possible_regions_in_readers = [''reads.bam'' \<mapsto> [''chr1'' \<mapsto> [(0, 5000)]]]\<rparr>"

definition s5_manager :: ReadManager where
  "s5_manager = \<lparr>m_max_open_files = 1, m_num_files = 1, m_closed_readers = [],
                 m_open_readers = [''reads.bam'']\<rparr>"

definition s5_region :: GenomicRegion where
  "s5_region = \<lparr>contig_name = ''chr1'', region_begin = 1000, region_end = 2000\<rparr>"



definition fit_region :: GenomicRegion where
  "fit_region = \<lparr>contig_name = ''chr1'', region_begin = 1000, region_end = 1002\<rparr>"

text \<open>
  What the proofs know of a tracker: every entry is one position of the region, and a
  tracker that is not empty and has at most \<open>max_reads\<close> entries holds the tail position.
\<close>

definition tracked_ok :: "GenomicRegion \<Rightarrow> nat \<Rightarrow> CoverageTracker \<Rightarrow> bool" where
  "tracked_ok region max_reads tracker =
     ((\<forall>a \<in> set tracker. region_begin region \<le> fst a \<and> snd a = fst a + 1
                          \<and> snd a \<le> region_end region)
      \<and> (tracker = [] \<or> max_reads < length tracker
          \<or> (\<exists>a \<in> set tracker. snd a = region_end region)))"

definition batch_ok :: "GenomicRegion \<Rightarrow> nat \<Rightarrow> CoverageTracker \<times> bool \<Rightarrow> bool" where
  "batch_ok region max_reads s =
     (tracked_ok region max_reads (fst s)
      \<and> (snd s \<longrightarrow> (\<exists>a \<in> set (fst s). snd a = region_end region)))"


text \<open>The invariant that the proofs carry through the operations.\<close>

definition mgr_inv :: "(Path \<Rightarrow> nat) \<Rightarrow> Path list \<Rightarrow> nat \<Rightarrow> ReadManager \<Rightarrow> bool" where
  "mgr_inv fs paths mx m =
     (m_max_open_files m = mx \<and> inj_on fs (set paths) \<and> distinct (m_open_readers m)
      \<and> budget_invariant paths m)"


section \<open>Theorems\<close>

subsection \<open>Builder\<close>

text \<open>
  C10: \<^verbatim>\<open>Builder::set_target_limit(n)\<close> sets the target limit to \<open>n\<close> and, because its guard
  compares the holdout limit with itself, always also sets the holdout and the overflow
  limit to \<open>n + 1\<close> (unsigned arithmetic). Limits configured earlier are overwritten, and the
  order of the setters is observable: on the example builder, setting the holdout limit
  before the target limit gives another holdout limit than setting it after.
\<close>

theorem set_target_limit_overwrites:
  "target (haplotype_limits (policies (set_target_limit n b))) = n
   \<and> holdout (haplotype_limits (policies (set_target_limit n b))) = n + 1
   \<and> overflow (haplotype_limits (policies (set_target_limit n b))) = n + 1
   \<and> set_target_limit n (set_holdout_limit h (set_overflow_limit v b)) = set_target_limit n b
   \<and> holdout (haplotype_limits (policies
         (set_holdout_limit 64 (set_target_limit 32 example_builder)))) = 64
   \<and> holdout (haplotype_limits (policies
         (set_target_limit 32 (set_holdout_limit 64 example_builder)))) = 33"
  by (simp add: set_target_limit_def set_holdout_limit_def set_overflow_limit_def
      example_builder_def)

subsection \<open>Haplotype generator\<close>

lemmas toy_defs = toy_def toy_tree_ops_def toy_region_ops_def toy_allele_ops_def toy_read_ops_def
  toy_walk_def toy_region_def toy_overlaps_def toy_contains_def toy_encompassing_def
  toy_encompassing_of_def snp_def toy_generator_def


lemma update_lagged_sets_next:
  "update_lagged_next_active_region C g = Some g1 \<Longrightarrow> g_next_active_region g1 \<noteq> None"
  by (auto simp: update_lagged_next_active_region_def Let_def
      split: if_splits option.splits)

lemma update_sets_next:
  "update_next_active_region C g = Some g1 \<Longrightarrow> g_next_active_region g1 \<noteq> None"
  by (auto simp: update_next_active_region_def dest: update_lagged_sets_next split: if_splits)

text \<open>
  C7: when \<^verbatim>\<open>generate\<close> computes the next active region (the alleles are not exhausted and
  no holdouts are re-introduced) and that region lies past the rightmost allele, it returns
  the packet with no haplotypes and that region, and the generator keeps the region as its
  cached next active region. \<^verbatim>\<open>update_next_active_region\<close> always leaves a region.
\<close>

theorem generate_end_of_stream:
  assumes "g_alleles g \<noteq> []"
    and "\<not> (in_holdout_mode g \<and> can_reintroduce_holdouts C g \<noteq> Some False)"
    and "update_next_active_region C g = Some g1"
  shows "\<exists>next_region. g_next_active_region g1 = Some next_region
           \<and> (is_after (region_ops C) next_region (mapped_region (g_rightmost_allele g1))
                \<longrightarrow> generate C g = Some (Inr ([], next_region), g1))"
proof -
  from update_sets_next[OF assms(3)] obtain r where r: "g_next_active_region g1 = Some r"
    by auto
  have "(if in_holdout_mode g then can_reintroduce_holdouts C g else Some False) = Some False"
    using assms(2) by auto
  with assms(1,3) r show ?thesis by (simp add: generate_def)
qed

theorem generate_end_of_stream_witness:
  "generate toy finished_example = Some (Inr ([], toy_region 15 15),
      finished_example\<lparr>g_next_active_region := Some (toy_region 15 15)\<rparr>)"
proof -
  have a: "g_alleles finished_example \<noteq> []"
    by (simp add: finished_example_def toy_defs)
  have b: "\<not> (in_holdout_mode finished_example
               \<and> can_reintroduce_holdouts toy finished_example \<noteq> Some False)"
    by (simp add: finished_example_def toy_defs in_holdout_mode_def)
  have c: "update_next_active_region toy finished_example
             = Some (finished_example\<lparr>g_next_active_region := Some (toy_region 15 15)\<rparr>)"
    by (simp add: finished_example_def toy_defs update_next_active_region_def
        in_holdout_mode_def is_lagging_enabled_def)
  have d: "is_after (region_ops toy) (toy_region 15 15)
             (mapped_region (g_rightmost_allele
                (finished_example\<lparr>g_next_active_region := Some (toy_region 15 15)\<rparr>)))"
    by (simp add: finished_example_def toy_defs)
  from generate_end_of_stream[OF a b c] d show ?thesis by auto
qed






















subsection \<open>Read manager\<close>

lemma set_map_emplace:
  "\<forall>q \<in> set qs. fs q \<noteq> fs p \<Longrightarrow> set (map_emplace fs p qs) = insert p (set qs)"
  by (induction qs) (auto simp: FileSizeCompare_def)

lemma length_map_emplace:
  "\<forall>q \<in> set qs. fs q \<noteq> fs p \<Longrightarrow> length (map_emplace fs p qs) = Suc (length qs)"
  by (induction qs) (auto simp: FileSizeCompare_def)

lemma distinct_map_emplace:
  "\<forall>q \<in> set qs. fs q \<noteq> fs p \<Longrightarrow> distinct qs \<Longrightarrow> distinct (map_emplace fs p qs)"
  by (induction qs) (auto simp: FileSizeCompare_def set_map_emplace)

lemma map_erase_inj:
  "inj_on fs A \<Longrightarrow> set qs \<subseteq> A \<Longrightarrow> p \<in> A \<Longrightarrow> map_erase fs p qs = removeAll p qs"
  unfolding map_erase_def FileSizeCompare_def
  by (induction qs) (auto simp: inj_on_def)

lemma emplace_reader_inv:
  assumes "mgr_inv fs paths mx m" "p \<in> set (m_closed_readers m)" "length (m_open_readers m) < mx"
  shows "mgr_inv fs paths mx (emplace_reader fs p m)
         \<and> length (m_open_readers (emplace_reader fs p m)) = Suc (length (m_open_readers m))
         \<and> set (m_closed_readers (emplace_reader fs p m)) = set (m_closed_readers m) - {p}"
proof -
  from assms have inj: "inj_on fs (set paths)" and sub: "set (m_open_readers m) \<union> set (m_closed_readers m) = set paths"
    and dis: "set (m_open_readers m) \<inter> set (m_closed_readers m) = {}"
    by (auto simp: mgr_inv_def budget_invariant_def)
  have fresh: "\<forall>q \<in> set (m_open_readers m). fs q \<noteq> fs p"
  proof
    fix q assume q: "q \<in> set (m_open_readers m)"
    with dis assms(2) have "q \<noteq> p" by auto
    moreover from q sub have "q \<in> set paths" by auto
    moreover from assms(2) sub have "p \<in> set paths" by auto
    ultimately show "fs q \<noteq> fs p" using inj by (auto simp: inj_on_def)
  qed
  show ?thesis
    using assms fresh
    by (auto simp: mgr_inv_def budget_invariant_def emplace_reader_def set_erase_def
        set_map_emplace length_map_emplace distinct_map_emplace)
qed

lemma close_reader_inv:
  assumes "mgr_inv fs paths mx m" "q \<in> set (m_open_readers m)"
  shows "mgr_inv fs paths mx (close_reader fs q m)
         \<and> Suc (length (m_open_readers (close_reader fs q m))) = length (m_open_readers m)
         \<and> set (m_closed_readers (close_reader fs q m)) = insert q (set (m_closed_readers m))"
proof -
  from assms have inj: "inj_on fs (set paths)" and sub: "set (m_open_readers m) \<subseteq> set paths"
    and d: "distinct (m_open_readers m)"
    by (auto simp: mgr_inv_def budget_invariant_def)
  have e: "map_erase fs q (m_open_readers m) = removeAll q (m_open_readers m)"
    using map_erase_inj[OF inj sub] assms(2) sub by auto
  have l: "Suc (length (removeAll q (m_open_readers m))) = length (m_open_readers m)"
    using d assms(2) by (simp add: distinct_remove1_removeAll[symmetric] length_remove1)
       (metis Suc_pred length_pos_if_in_set)
  show ?thesis
    using assms e l
    by (auto simp: mgr_inv_def budget_invariant_def close_reader_def set_insert_def distinct_removeAll)
qed

lemma close_readers_inv:
  "mgr_inv fs paths mx m \<Longrightarrow> n \<le> length (m_open_readers m) \<Longrightarrow>
   \<exists>m'. close_readers fs n m = Some m' \<and> mgr_inv fs paths mx m'
        \<and> length (m_open_readers m') + n = length (m_open_readers m)
        \<and> set (m_closed_readers m) \<subseteq> set (m_closed_readers m')"
proof (induction n arbitrary: m)
  case 0
  then show ?case by simp
next
  case (Suc n)
  then obtain q qs where q: "m_open_readers m = q # qs" by (cases "m_open_readers m") auto
  then have qin: "q \<in> set (m_open_readers m)" by simp
  note c = close_reader_inv[OF Suc.prems(1) qin]
  from c Suc.prems have "n \<le> length (m_open_readers (close_reader fs q m))" by simp
  from Suc.IH[OF conjunct1[OF c] this] obtain m' where
    "close_readers fs n (close_reader fs q m) = Some m'" "mgr_inv fs paths mx m'"
    "length (m_open_readers m') + n = length (m_open_readers (close_reader fs q m))"
    "set (m_closed_readers (close_reader fs q m)) \<subseteq> set (m_closed_readers m')" by blast
  with c q show ?case by (auto simp: choose_reader_to_close_def)
qed

lemma open_reader_inv:
  assumes "mgr_inv fs paths mx m" "p \<in> set (m_closed_readers m)" "length (m_open_readers m) < mx"
  shows "open_reader fs p m = Some (emplace_reader fs p m)"
  using assms by (simp add: open_reader_def num_open_readers_def mgr_inv_def)

lemma open_each_inv:
  "mgr_inv fs paths mx m \<Longrightarrow> distinct ps \<Longrightarrow> set ps \<subseteq> set (m_closed_readers m) \<Longrightarrow>
   length (m_open_readers m) + length ps \<le> mx \<Longrightarrow>
   \<exists>m'. open_each fs ps m = Some m' \<and> mgr_inv fs paths mx m'
        \<and> set (m_closed_readers m') = set (m_closed_readers m) - set ps"
proof (induction ps arbitrary: m)
  case Nil
  then show ?case by simp
next
  case (Cons p ps)
  have p: "p \<in> set (m_closed_readers m)" and lt: "length (m_open_readers m) < mx"
    using Cons.prems by auto
  note e = emplace_reader_inv[OF Cons.prems(1) p lt]
  have "\<exists>m'. open_each fs ps (emplace_reader fs p m) = Some m' \<and> mgr_inv fs paths mx m'
        \<and> set (m_closed_readers m') = set (m_closed_readers (emplace_reader fs p m)) - set ps"
    using Cons.prems e by (intro Cons.IH) auto
  then show ?case
    using e open_reader_inv[OF Cons.prems(1) p lt] by auto
qed

lemma open_readers_inv:
  assumes "mgr_inv fs paths mx m" "distinct ps" "set ps \<subseteq> set (m_closed_readers m)"
  shows "\<exists>i m'. open_readers fs ps m = Some (i, m') \<and> mgr_inv fs paths mx m'
           \<and> set (take i ps) \<subseteq> set (m_closed_readers m')"
proof (cases "ps = []")
  case True
  with assms show ?thesis by (simp add: open_readers_def)
next
  case False
  have le: "length (m_open_readers m) \<le> mx" and mx: "m_max_open_files m = mx"
    using assms(1) by (auto simp: mgr_inv_def budget_invariant_def)
  then have sp: "num_reader_spaces m = mx - length (m_open_readers m)"
    by (simp add: num_reader_spaces_def num_open_readers_def)
  show ?thesis
  proof (cases "length ps \<le> mx - length (m_open_readers m)")
    case True
    then have "length (m_open_readers m) + length ps \<le> mx" using le by simp
    from open_each_inv[OF assms this] obtain m' where
      "open_each fs ps m = Some m'" "mgr_inv fs paths mx m'" by blast
    with False True sp show ?thesis by (simp add: open_readers_def)
  next
    case gt: False
    define k where "k = min (length (m_open_readers m)) (length ps - (mx - length (m_open_readers m)))"
    have "k \<le> length (m_open_readers m)" by (simp add: k_def)
    from close_readers_inv[OF assms(1) this] obtain m1 where
      m1: "close_readers fs k m = Some m1" "mgr_inv fs paths mx m1"
          "length (m_open_readers m1) + k = length (m_open_readers m)"
          "set (m_closed_readers m) \<subseteq> set (m_closed_readers m1)" by blast
    define i where "i = length ps - (mx - length (m_open_readers m) + k)"
    have d: "distinct (drop i ps)" using assms(2) by simp
    have s: "set (drop i ps) \<subseteq> set (m_closed_readers m1)"
      using assms(3) m1(4) set_drop_subset[of i ps] by blast
    have l: "length (m_open_readers m1) + length (drop i ps) \<le> mx"
      using m1(3) le gt by (simp add: i_def k_def min_def split: if_splits)
    from open_each_inv[OF m1(2) d s l] obtain m' where
      m': "open_each fs (drop i ps) m1 = Some m'" "mgr_inv fs paths mx m'"
          "set (m_closed_readers m') = set (m_closed_readers m1) - set (drop i ps)" by blast
    have "set (take i ps) \<inter> set (drop i ps) = {}"
      using assms(2) by (metis append_take_drop_id distinct_append)
    moreover have "set (take i ps) \<subseteq> set (m_closed_readers m1)"
      using assms(3) m1(4) set_take_subset[of i ps] by blast
    ultimately have "set (take i ps) \<subseteq> set (m_closed_readers m')" using m'(3) by auto
    with m' m1 False gt sp show ?thesis
      by (simp add: open_readers_def num_open_readers_def k_def i_def Let_def)
  qed
qed

lemma query_steps_inv:
  "mgr_inv fs paths mx m \<Longrightarrow> distinct (take itr rp) \<Longrightarrow>
   set (take itr rp) \<subseteq> set (m_closed_readers m) \<Longrightarrow>
   \<exists>m'. query_steps n fs rp itr m = Some m' \<and> mgr_inv fs paths mx m'"
proof (induction n arbitrary: rp itr m)
  case 0
  then show ?case by simp
next
  case (Suc n)
  from open_readers_inv[OF Suc.prems] obtain i m1 where
    o: "open_readers fs (take itr rp) m = Some (i, m1)" "mgr_inv fs paths mx m1"
       "set (take i (take itr rp)) \<subseteq> set (m_closed_readers m1)" by blast
  have "distinct (take i (take itr rp))" using Suc.prems(2) by (rule distinct_take)
  from Suc.IH[OF o(2) this o(3)] o(1) Suc.prems(1) show ?case by auto
qed

lemma is_open_inv:
  assumes "mgr_inv fs paths mx m" "p \<in> set paths" "\<not> is_open fs m p"
  shows "p \<in> set (m_closed_readers m)"
proof (rule ccontr)
  assume "p \<notin> set (m_closed_readers m)"
  with assms(1,2) have p: "p \<in> set (m_open_readers m)" and d: "distinct (m_open_readers m)"
    and inj: "inj_on fs (set paths)" and sub: "set (m_open_readers m) \<subseteq> set paths"
    by (auto simp: mgr_inv_def budget_invariant_def)
  have "filter (\<lambda>q. \<not> fs q < fs p \<and> \<not> fs p < fs q) (m_open_readers m) = filter (\<lambda>q. q = p) (m_open_readers m)"
    using inj sub assms(2) by (intro filter_cong) (auto simp: inj_on_def)
  then have "length (filter (\<lambda>q. \<not> fs q < fs p \<and> \<not> fs p < fs q) (m_open_readers m))
                 = card ({q. q = p} \<inter> set (m_open_readers m))"
    using d by (simp add: distinct_length_filter)
  moreover have "{q. q = p} \<inter> set (m_open_readers m) = {p}" using p by auto
  ultimately show False using assms(3) by (simp add: is_open_def map_count_def FileSizeCompare_def)
qed

lemma query_inv:
  assumes "mgr_inv fs paths mx m" "distinct (snd q)" "set (snd q) \<subseteq> set paths"
  shows "\<exists>m'. query fs q m = Some m' \<and> mgr_inv fs paths mx m'"
proof (cases "all_readers_are_open m")
  case True
  with assms(1) show ?thesis by (simp add: query_def)
next
  case False
  let ?c = "filter (\<lambda>p. \<not> is_open fs m p) (snd q)"
  let ?rp = "?c @ filter (is_open fs m) (snd q)"
  have t: "take (length ?c) ?rp = ?c" by simp
  have d: "distinct (take (length ?c) ?rp)" unfolding t using assms(2) by simp
  have s: "set (take (length ?c) ?rp) \<subseteq> set (m_closed_readers m)"
    unfolding t using is_open_inv[OF assms(1)] assms(3) by auto
  from query_steps_inv[OF assms(1) d s, of "fst q"] False show ?thesis
    by (simp add: query_def partition_open_def)
qed

lemma run_queries_inv:
  "mgr_inv fs paths mx m \<Longrightarrow> \<forall>q \<in> set qs. distinct (snd q) \<and> set (snd q) \<subseteq> set paths \<Longrightarrow>
   \<exists>m'. run_queries fs qs m = Some m' \<and> mgr_inv fs paths mx m'"
proof (induction qs arbitrary: m)
  case Nil
  then show ?case by simp
next
  case (Cons q qs)
  from query_inv[OF Cons.prems(1), of q] Cons.prems(2) obtain m1 where
    "query fs q m = Some m1" "mgr_inv fs paths mx m1" by auto
  with Cons.IH[of m1] Cons.prems(2) show ?case by auto
qed

lemma ReadManager_new_inv:
  assumes "inj_on fs (set paths)"
  shows "\<exists>m. ReadManager_new fs paths mx = Some m \<and> mgr_inv fs paths mx m"
proof -
  let ?m0 = "\<lparr>m_max_open_files = mx, m_num_files = length paths,
             m_closed_readers = remdups paths, m_open_readers = []\<rparr>"
  let ?ps = "take (min mx (length (remdups paths))) (sort_key fs (remdups paths))"
  have i: "mgr_inv fs paths mx ?m0" using assms by (simp add: mgr_inv_def budget_invariant_def)
  have d: "distinct ?ps" by (simp add: distinct_take)
  have s: "set ?ps \<subseteq> set (m_closed_readers ?m0)"
    using set_take_subset[of _ "sort_key fs (remdups paths)"] by auto
  from open_readers_inv[OF i d s] show ?thesis
    by (auto simp: ReadManager_new_def open_initial_files_def)
qed

lemma budget_invariant_distinct_sizes:
  assumes "inj_on fs (set paths)"
    and "\<forall>q \<in> set qs. distinct (snd q) \<and> set (snd q) \<subseteq> set paths"
  shows "\<exists>m m'. ReadManager_new fs paths mx = Some m \<and> run_queries fs qs m = Some m'
           \<and> budget_invariant paths m'"
proof -
  from ReadManager_new_inv[OF assms(1)] obtain m where
    m: "ReadManager_new fs paths mx = Some m" "mgr_inv fs paths mx m" by blast
  from run_queries_inv[OF m(2) assms(2)] m(1) show ?thesis by (auto simp: mgr_inv_def)
qed


text \<open>
  C4: the claim says that after construction and across every sequence of queries at most
  \<^verbatim>\<open>max_open_files\<close> readers are open, the open and the closed readers are disjoint, and
  their union is the input path set. \<^verbatim>\<open>budget_invariant_distinct_sizes\<close> above proves this
  for input files of pairwise distinct sizes. The map of open readers is keyed by file
  size, though: two input files of the same size are one key. Constructing the manager on
  \<^verbatim>\<open>a.bam\<close> and \<^verbatim>\<open>b.bam\<close>, both of size 7, with room for two open files, opens \<^verbatim>\<open>a.bam\<close>,
  fails to emplace \<^verbatim>\<open>b.bam\<close> and still erases it from the closed set: \<^verbatim>\<open>b.bam\<close> is in
  neither set, and the union is not the input path set.
\<close>

theorem budget_invariant_equal_sizes:
  "ReadManager_new sizes_example [''a.bam'', ''b.bam''] 2 =
     Some \<lparr>m_max_open_files = 2, m_num_files = 2, m_closed_readers = [],
           m_open_readers = [''a.bam'']\<rparr>
   \<and> \<not> budget_invariant [''a.bam'', ''b.bam'']
         \<lparr>m_max_open_files = 2, m_num_files = 2, m_closed_readers = [],
          m_open_readers = [''a.bam'']\<rparr>"
  by (simp add: ReadManager_new_def open_initial_files_def open_readers_def sizes_example_def
      num_reader_spaces_def num_open_readers_def open_reader_def emplace_reader_def
      set_erase_def FileSizeCompare_def budget_invariant_def)

subsection \<open>Coverage-bounded subregions\<close>

lemma fold_min_le: "fold (\<lambda>a b. min (fst a) b) rs x \<le> (x::nat)"
proof (induction rs arbitrary: x)
  case Nil
  then show ?case by simp
next
  case (Cons r rs)
  have "fold (\<lambda>a b. min (fst a) b) rs (min (fst r) x) \<le> min (fst r) x" by (rule Cons.IH)
  also have "\<dots> \<le> x" by simp
  finally show ?case by simp
qed

lemma fold_min_ge:
  "\<forall>a \<in> set rs. c \<le> fst a \<Longrightarrow> c \<le> x \<Longrightarrow> c \<le> fold (\<lambda>a b. min (fst a) b) rs (x::nat)"
  by (induction rs arbitrary: x) auto

lemma fold_max_le:
  "\<forall>a \<in> set rs. snd a \<le> c \<Longrightarrow> x \<le> c \<Longrightarrow> fold (\<lambda>a b. max (snd a) b) rs (x::nat) \<le> c"
  by (induction rs arbitrary: x) auto

lemma fold_max_ge_init: "x \<le> fold (\<lambda>a b. max (snd a) b) rs (x::nat)"
  by (induction rs arbitrary: x) (auto intro: order_trans[OF max.cobounded2])

lemma fold_max_ge_elem:
  "a \<in> set rs \<Longrightarrow> snd a \<le> fold (\<lambda>a b. max (snd a) b) rs (x::nat)"
proof (induction rs arbitrary: x)
  case Nil
  then show ?case by simp
next
  case (Cons r rs)
  show ?case
  proof (cases "a = r")
    case True
    have "snd r \<le> max (snd r) x" by simp
    also have "\<dots> \<le> fold (\<lambda>a b. max (snd a) b) rs (max (snd r) x)" by (rule fold_max_ge_init)
    finally show ?thesis using True by simp
  next
    case False
    with Cons show ?thesis by simp
  qed
qed

lemma encompassing_of_tracked:
  assumes "\<forall>a \<in> set tracker. b \<le> fst a \<and> snd a \<le> e" "a \<in> set tracker" "snd a = e"
  shows "\<exists>mn. tracker_encompassing_region tracker = Some (mn, e) \<and> b \<le> mn"
proof (cases tracker)
  case Nil
  with assms show ?thesis by simp
next
  case (Cons r rs)
  have le: "fold (\<lambda>a b. max (snd a) b) rs (snd r) \<le> e"
    using assms(1) Cons by (intro fold_max_le) auto
  have ge: "e \<le> fold (\<lambda>a b. max (snd a) b) rs (snd r)"
  proof (cases "a = r")
    case True
    then show ?thesis using assms(3) fold_max_ge_init[of "snd r" rs] by simp
  next
    case False
    with assms(2) Cons have "a \<in> set rs" by simp
    from fold_max_ge_elem[OF this] assms(3) show ?thesis by simp
  qed
  have mn: "b \<le> fold (\<lambda>a b. min (fst a) b) rs (fst r)"
    using assms(1) Cons by (intro fold_min_ge) auto
  from le ge mn Cons show ?thesis by (simp add: tracker_encompassing_region_def)
qed

lemma sum_list_indicator:
  "b \<le> q \<Longrightarrow> q < e \<Longrightarrow> sum_list (map (\<lambda>p. if p = q then 1 else 0) [b..<e]) = (1::nat)"
proof (induction e)
  case 0
  then show ?case by simp
next
  case (Suc e)
  show ?case
  proof (cases "q = e")
    case True
    have "sum_list (map (\<lambda>p. if p = q then 1 else 0) [b..<e]) = (0::nat)"
      using True by (simp add: sum_list_eq_0_iff)
    with True Suc.prems show ?thesis by simp
  next
    case False
    with Suc show ?thesis by simp
  qed
qed

lemma total_coverage_tracked:
  "\<forall>a \<in> set tracker. b \<le> fst a \<and> snd a = fst a + 1 \<and> snd a \<le> e \<Longrightarrow>
   tracker_total_coverage tracker (b, e) = length tracker"
proof (induction tracker)
  case Nil
  then show ?case by (simp add: tracker_total_coverage_def tracker_coverage_def sum_list_eq_0_iff)
next
  case (Cons a tracker)
  have a: "b \<le> fst a" "fst a < e" "snd a = fst a + 1" using Cons.prems by auto
  have "tracker_total_coverage (a # tracker) (b, e)
        = sum_list (map (\<lambda>p. (if p = fst a then 1 else 0)
                             + length (filter (\<lambda>a. fst a \<le> p \<and> p < snd a) tracker)) [b..<e])"
    unfolding tracker_total_coverage_def tracker_coverage_def using a
    by (auto intro!: arg_cong[where f=sum_list] map_cong)
  also have "\<dots> = sum_list (map (\<lambda>p. if p = fst a then 1 else 0) [b..<e])
                  + tracker_total_coverage tracker (b, e)"
    by (simp add: sum_list_addf tracker_total_coverage_def tracker_coverage_def)
  also have "\<dots> = 1 + length tracker"
  proof -
    have "tracker_total_coverage tracker (b, e) = length tracker"
      using Cons.prems by (intro Cons.IH) auto
    with sum_list_indicator[OF a(1,2)] show ?thesis by simp
  qed
  finally show ?case by simp
qed

lemma max_head_region_all_fit:
  assumes "tracked_ok region max_reads tracker" "length tracker \<le> max_reads"
    and "region_begin region < region_end region"
  shows "max_head_region tracker region max_reads = region"
proof (cases "tracker = []")
  case True
  then show ?thesis by (simp add: max_head_region_def tracker_is_empty_def)
next
  case False
  with assms(1,2) obtain a where a: "a \<in> set tracker" "snd a = region_end region"
    by (auto simp: tracked_ok_def)
  have all: "\<forall>a \<in> set tracker. region_begin region \<le> fst a \<and> snd a \<le> region_end region"
    using assms(1) by (auto simp: tracked_ok_def)
  from encompassing_of_tracked[OF all a] obtain mn where
    mn: "tracker_encompassing_region tracker = Some (mn, region_end region)"
        "region_begin region \<le> mn" by blast
  have mr: "max_head_region_of tracker region = region"
    using mn assms(3)
    by (simp add: max_head_region_of_def contig_is_before_def contig_ends_before_def
        contig_region_def closed_region_def)
  have "tracker_total_coverage tracker (region_begin region, region_end region) = length tracker"
    using assms(1) by (intro total_coverage_tracked) (auto simp: tracked_ok_def)
  with mr assms(2) False show ?thesis
    by (simp add: max_head_region_def tracker_is_empty_def contig_region_def)
qed

lemma set_fold_add_position:
  "set (fold add_position ps t) = set t \<union> (\<lambda>p. (p, p + 1)) ` set ps"
  by (induction ps arbitrary: t) (auto simp: add_position_def tracker_add_def)

lemma length_fold_add_position: "length (fold add_position ps t) = length t + length ps"
  by (induction ps arbitrary: t) (auto simp: add_position_def tracker_add_def)

lemma extract_read_positions_in_region:
  "p \<in> set (extract_read_positions file samples region n) \<Longrightarrow>
   region_begin region \<le> p \<and> p < region_end region"
  by (auto simp: extract_read_positions_def dest!: in_set_takeD)

lemma track_reader_ok:
  assumes "batch_ok region max_reads s" "region_begin region < region_end region"
  shows "batch_ok region max_reads (track_reader files samples region max_reads q s)"
proof -
  let ?ps = "extract_read_positions (files q) samples region (max_reads + 1)"
  let ?t = "fold add_position ?ps (fst s)"
  have old: "\<forall>a \<in> set (fst s). region_begin region \<le> fst a \<and> snd a = fst a + 1
                      \<and> snd a \<le> region_end region"
    using assms(1) unfolding batch_ok_def tracked_ok_def by blast
  have in_region: "\<forall>a \<in> set ?t. region_begin region \<le> fst a \<and> snd a = fst a + 1
                      \<and> snd a \<le> region_end region"
  proof
    fix a assume "a \<in> set ?t"
    then consider "a \<in> set (fst s)" | p where "p \<in> set ?ps" "a = (p, p + 1)"
      by (auto simp: set_fold_add_position)
    then show "region_begin region \<le> fst a \<and> snd a = fst a + 1 \<and> snd a \<le> region_end region"
    proof cases
      case 1
      with old show ?thesis by blast
    next
      case 2
      with extract_read_positions_in_region[OF 2(1)] show ?thesis by simp
    qed
  qed
  show ?thesis
  proof (cases "length ?ps \<le> max_reads \<and> \<not> snd s")
    case True
    then have r: "track_reader files samples region max_reads q s
                  = (?t @ [(region_end region - 1, region_end region)], True)"
      by (simp add: track_reader_def Let_def tracker_add_def tail_position_def contig_region_def)
    show ?thesis
      unfolding r batch_ok_def tracked_ok_def using in_region assms(2) by auto
  next
    case False
    then have r: "track_reader files samples region max_reads q s = (?t, snd s)"
      by (auto simp: track_reader_def Let_def)
    have tl: "snd s \<Longrightarrow> \<exists>a \<in> set ?t. snd a = region_end region"
      using assms(1) by (auto simp: batch_ok_def set_fold_add_position)
    have "?t = [] \<or> max_reads < length ?t \<or> (\<exists>a \<in> set ?t. snd a = region_end region)"
    proof (cases "snd s")
      case True
      with tl show ?thesis by blast
    next
      case f: False
      with False have "max_reads < length ?ps" by simp
      then show ?thesis by (simp add: length_fold_add_position)
    qed
    with in_region tl show ?thesis
      unfolding r batch_ok_def tracked_ok_def fst_conv snd_conv by blast
  qed
qed

lemma fold_track_reader_ok:
  "batch_ok region max_reads s \<Longrightarrow> region_begin region < region_end region \<Longrightarrow>
   batch_ok region max_reads (fold (track_reader files samples region max_reads) qs s)"
  by (induction qs arbitrary: s) (simp_all add: track_reader_ok)

lemma track_batch_ok:
  "batch_ok region max_reads s \<Longrightarrow> region_begin region < region_end region \<Longrightarrow>
   track_batch fs files samples region max_reads m qs s = Some s' \<Longrightarrow>
   batch_ok region max_reads s'"
proof (induction qs arbitrary: s)
  case Nil
  then show ?case by simp
next
  case (Cons q qs)
  from Cons.prems(3) obtain x where
    "track_batch fs files samples region max_reads m qs
       (track_reader files samples region max_reads x s) = Some s'"
    by (auto split: option.splits)
  from Cons.IH[OF track_reader_ok[OF Cons.prems(1,2)] Cons.prems(2) this] show ?case .
qed

lemma covered_steps_ok:
  "tracked_ok region max_reads tracker \<Longrightarrow> region_begin region < region_end region \<Longrightarrow>
   covered_steps n fs files samples region max_reads rp itr tracker m = Some (tracker', m') \<Longrightarrow>
   tracked_ok region max_reads tracker'"
proof (induction n arbitrary: rp itr tracker m)
  case 0
  then show ?case by (auto split: if_splits)
next
  case (Suc n)
  show ?case
  proof (cases "rp = []")
    case True
    with Suc.prems show ?thesis by simp
  next
    case False
    with Suc.prems(3) obtain s r where
      s: "track_batch fs files samples region max_reads m (drop itr rp) (tracker, False) = Some s"
      and r: "open_readers fs (take itr rp) m = Some r"
      and c: "covered_steps n fs files samples region max_reads (take itr rp) (fst r) (fst s) (snd r)
              = Some (tracker', m')"
      by (auto split: option.splits)
    have "batch_ok region max_reads (tracker, False)"
      using Suc.prems(1) by (simp add: batch_ok_def)
    from track_batch_ok[OF this Suc.prems(2) s] have "tracked_ok region max_reads (fst s)"
      by (simp add: batch_ok_def)
    from Suc.IH[OF this Suc.prems(2) c] show ?thesis .
  qed
qed

lemma track_positions_ok:
  assumes "track_positions fuel fs files index samples region max_reads m = Some (tracker, m')"
    and "region_begin region < region_end region"
  shows "tracked_ok region max_reads tracker"
proof (cases "all_readers_are_open m")
  case True
  have "batch_ok region max_reads ([], False)" by (simp add: batch_ok_def tracked_ok_def)
  from fold_track_reader_ok[OF this assms(2)] assms(1) True show ?thesis
    by (auto simp: track_positions_def batch_ok_def)
next
  case False
  have "tracked_ok region max_reads []" by (simp add: tracked_ok_def)
  with assms False show ?thesis
    by (auto simp: track_positions_def split: option.splits dest: covered_steps_ok)
qed

text \<open>
  Where the code agrees with the specified prefix: whenever the positions that
  \<^verbatim>\<open>find_covered_subregion\<close> tracks (the read positions it requests from each file, at most
  \<open>max_reads + 1\<close> per file, and the tail positions it adds) number at most \<open>max_reads\<close>,
  it returns the whole region, for every non-empty sample list and non-empty region; for
  an empty sample list or an empty region it returns the region unchanged. With all
  readers open the positions are tracked without a loop over slices of readers.
\<close>

lemma track_positions_all_open:
  "all_readers_are_open m \<Longrightarrow>
   \<exists>tracker. track_positions fuel fs files index samples region max_reads m = Some (tracker, m)"
  by (simp add: track_positions_def)

theorem find_covered_subregion_all_fit:
  assumes "track_positions fuel fs files index samples region max_reads m = Some (tracker, m')"
    and "length tracker \<le> max_reads"
    and "samples \<noteq> []"
    and "region_begin region < region_end region"
  shows "find_covered_subregion fuel fs files index samples region max_reads m = Some (region, m')
         \<and> find_covered_subregion fuel fs files index [] region max_reads m = Some (region, m)
         \<and> find_covered_subregion fuel fs files index samples
               (region\<lparr>region_end := region_begin region\<rparr>) max_reads m
             = Some (region\<lparr>region_end := region_begin region\<rparr>, m)"
  using max_head_region_all_fit[OF track_positions_ok[OF assms(1,4)] assms(2,4)] assms(1,3,4)
  by (simp add: find_covered_subregion_def region_is_empty_def)

theorem find_covered_subregion_all_fit_witness:
  "find_covered_subregion 0 length s5_files s5_index [''S''] fit_region 3 s5_manager
     = Some (fit_region, s5_manager)
   \<and> find_covered_subregion 0 length s5_files s5_index [] fit_region 3 s5_manager
     = Some (fit_region, s5_manager)"
proof -
  have t: "track_positions 0 length s5_files s5_index [''S''] fit_region 3 s5_manager
             = Some ([(1000, 1001), (1001, 1002), (1001, 1002)], s5_manager)"
    by (simp add: track_positions_def s5_files_def s5_manager_def fit_region_def
        all_readers_are_open_def track_reader_def extract_read_positions_def add_position_def
        tracker_add_def tail_position_def contig_region_def)
  have l: "length [(1000::nat, 1001::nat), (1001, 1002), (1001, 1002)] \<le> 3" by simp
  have n: "[''S''] \<noteq> []" by simp
  have r: "region_begin fit_region < region_end fit_region" by (simp add: fit_region_def)
  from find_covered_subregion_all_fit[OF t l n r] show ?thesis by simp
qed

text \<open>
  C5 on the code, scenario S5: the manager built for the one file has it open; with
  \<open>max_reads = 3\<close> the four requested positions 1000, 1001, 1002 and 1050 are tracked, the
  partial sums of the coverage of \<open>[1000, 1051)\<close> first exceed 3 at index 50, and
  \<^verbatim>\<open>max_head_region\<close> returns \<^verbatim>\<open>expand_rhs(max_region, 50)\<close>, which is \<open>chr1:[1000, 1101)\<close> and
  not the prefix \<open>chr1:[1000, 1003)\<close> of the claim: four reads start in it, more than
  \<open>max_reads\<close>. The code computes the length of the prefix and then adds it to the end of
  \<^verbatim>\<open>max_region\<close>, which already ends at the last tracked position.
\<close>

theorem find_covered_subregion_S5:
  "ReadManager_new length [''reads.bam''] 1 = Some s5_manager
   \<and> find_covered_subregion 0 length s5_files s5_index [''S''] s5_region 3 s5_manager
       = Some (\<lparr>contig_name = ''chr1'', region_begin = 1000, region_end = 1101\<rparr>, s5_manager)
   \<and> find_covered_subregion 0 length s5_files s5_index [''S''] s5_region 3 s5_manager
       \<noteq> Some (\<lparr>contig_name = ''chr1'', region_begin = 1000, region_end = 1003\<rparr>, s5_manager)
   \<and> length (extract_read_positions (s5_files ''reads.bam'') [''S'']
               \<lparr>contig_name = ''chr1'', region_begin = 1000, region_end = 1101\<rparr> 100) = 4"
proof -
  have m: "ReadManager_new length [''reads.bam''] 1 = Some s5_manager"
    by (simp add: ReadManager_new_def open_initial_files_def open_readers_def s5_manager_def
        num_reader_spaces_def num_open_readers_def open_reader_def emplace_reader_def
        set_erase_def)
  have f: "find_covered_subregion 0 length s5_files s5_index [''S''] s5_region 3 s5_manager
       = Some (\<lparr>contig_name = ''chr1'', region_begin = 1000, region_end = 1101\<rparr>, s5_manager)"
    by (simp add: find_covered_subregion_def track_positions_def s5_files_def s5_manager_def
    s5_region_def all_readers_are_open_def region_is_empty_def track_reader_def
    extract_read_positions_def add_position_def tracker_add_def max_head_region_def
    tracker_is_empty_def max_head_region_of_def tracker_encompassing_region_def contig_region_def
    contig_is_before_def contig_ends_before_def closed_region_def tracker_total_coverage_def
    tracker_coverage_def upper_bound_def region_expand_rhs_def Let_def upt_conv_Cons)
  have e: "length (extract_read_positions (s5_files ''reads.bam'') [''S'']
               \<lparr>contig_name = ''chr1'', region_begin = 1000, region_end = 1101\<rparr> 100) = 4"
    by (simp add: extract_read_positions_def s5_files_def)
  from m f e show ?thesis by simp
qed

end
